theory Spec2Isabelle
  imports Main "HOL-Library.Char_ord" "HOL-Library.List_Lexorder" "HOL-Library.Sublist"
begin

section \<open>JavaScript string and array primitives used by the restore tooling\<close>

text \<open>
  Strings are lists of characters. The functions below are the library calls the
  source makes on strings and arrays: \<^verbatim>\<open>String.prototype.split\<close> with a
  one-character separator, \<^verbatim>\<open>Array.prototype.join\<close>, the string form of
  \<^verbatim>\<open>String.prototype.replace\<close> (first occurrence only) and the regular
  expression \<^verbatim>\<open>/^\d+$/\<close>.
\<close>

fun js_split :: "char \<Rightarrow> string \<Rightarrow> string list" where
  "js_split sep [] = [[]]"
| "js_split sep (c # cs) =
     (if c = sep then [] # js_split sep cs
      else (case js_split sep cs of
              [] \<Rightarrow> [[c]]
            | p # ps \<Rightarrow> (c # p) # ps))"

text \<open>\<^verbatim>\<open>s.split(sep, limit)\<close>: the full split, cut to its first \<open>limit\<close> pieces.\<close>

definition js_split_limit :: "char \<Rightarrow> nat \<Rightarrow> string \<Rightarrow> string list" where
  "js_split_limit sep limit s = take limit (js_split sep s)"

fun js_join :: "string \<Rightarrow> string list \<Rightarrow> string" where
  "js_join sep [] = []"
| "js_join sep [p] = p"
| "js_join sep (p # q # ps) = p @ sep @ js_join sep (q # ps)"

text \<open>
  \<^verbatim>\<open>s.replace(pat, rep)\<close> with a string pattern: the first occurrence of
  \<open>pat\<close> is replaced, an empty pattern matches at position 0, and a string without
  the pattern is returned as it is. (The only call in the source passes the replacement
  \<^verbatim>\<open>''\<close>, so the dollar patterns of replacement strings play no role.)
\<close>

fun js_replace :: "string \<Rightarrow> string \<Rightarrow> string \<Rightarrow> string" where
  "js_replace [] pat rep = (if pat = [] then rep else [])"
| "js_replace (c # cs) pat rep =
     (if prefix pat (c # cs) then rep @ drop (length pat) (c # cs)
      else c # js_replace cs pat rep)"

text \<open>The character test \<^verbatim>\<open>!(c < '0' || c > '9')\<close>, by code unit.\<close>

definition is_digit :: "char \<Rightarrow> bool" where
  "is_digit c = (\<not> (c < CHR ''0'' \<or> c > CHR ''9''))"

text \<open>\<^verbatim>\<open>/^\d+$/.test(str)\<close>: one or more decimal digits and nothing else.\<close>

definition is_numeric :: "string \<Rightarrow> bool" where
  "is_numeric str = (str \<noteq> [] \<and> list_all is_digit str)"

text \<open>The value of a string of decimal digits, most significant digit first.\<close>

definition digit_value :: "char \<Rightarrow> nat" where
  "digit_value c = of_char c - of_char CHR ''0''"

definition decimal_value :: "string \<Rightarrow> nat" where
  "decimal_value s = foldl (\<lambda>n c. 10 * n + digit_value c) 0 s"

text \<open>
  \<^verbatim>\<open>parseInt(s)\<close> on a string that starts with decimal digits: the value of the
  longest prefix of digits, \<open>None\<close> (NaN) when that prefix is empty. White space, a
  sign and a hexadecimal prefix are not modelled: the only call is reached with a string
  of decimal digits. Every value below \<open>2^53\<close> is exact as a JavaScript number and
  the conversion is monotone, so the comparison with 2147483647 is the one on the exact
  value.
\<close>

definition parseInt :: "string \<Rightarrow> nat option" where
  "parseInt s =
     (let ds = takeWhile is_digit s
      in if ds = [] then None else Some (decimal_value ds))"

section \<open>Version validation (helpers: IsValidVersionComponent, IsValidVersion)\<close>

text \<open>The loop \<^verbatim>\<open>for (i = 1; i < l; i++) if (s[i] < '0' || s[i] > '9') return false\<close>
  over the characters after the first.\<close>

fun digits_loop :: "string \<Rightarrow> bool" where
  "digits_loop [] = True"
| "digits_loop (c # cs) = (if c < CHR ''0'' \<or> c > CHR ''9'' then False else digits_loop cs)"

definition IsValidVersionComponent :: "string \<Rightarrow> bool" where
  "IsValidVersionComponent s =
     (let l = length s in
      if l < 1 then False
      else
        let c = s ! 0 in
        if l < 2 then \<not> (c < CHR ''0'' \<or> c > CHR ''9'')
        else if c < CHR ''1'' \<or> c > CHR ''9'' then False
        else if \<not> digits_loop (drop 1 s) then False
        else (case parseInt s of
                None \<Rightarrow> True
              | Some n \<Rightarrow> if n > 2147483647 then False else True))"

definition IsValidVersion :: "string \<Rightarrow> bool" where
  "IsValidVersion s =
     (let parts = js_split_limit CHR ''.'' 5 s;
          len = length parts in
      if len < 2 \<or> len > 4 then False
      else if \<not> IsValidVersionComponent (parts ! 0) \<or> \<not> IsValidVersionComponent (parts ! 1)
        then False
      else if len < 3 then True
      else if \<not> IsValidVersionComponent (parts ! 2) then False
      else if len < 4 then True
      else IsValidVersionComponent (parts ! 3))"

text \<open>
  The rule of the specification, in its words: a component is a non-empty token of
  digits only, with no leading zero unless the token is exactly \<open>0\<close>, whose integer
  value is at most 2147483647; a version string is valid when splitting it on the dot into
  at most 5 tokens yields 2 to 4 components and every component satisfies the rule.
\<close>

definition spec_component_ok :: "string \<Rightarrow> bool" where
  "spec_component_ok t =
     (t \<noteq> [] \<and> (\<forall>c \<in> set t. c \<in> set ''0123456789'') \<and>
      (hd t \<noteq> CHR ''0'' \<or> t = ''0'') \<and> decimal_value t \<le> 2147483647)"

definition spec_valid_version :: "string \<Rightarrow> bool" where
  "spec_valid_version s =
     (let toks = take 5 (js_split CHR ''.'' s)
      in 2 \<le> length toks \<and> length toks \<le> 4 \<and> (\<forall>t \<in> set toks. spec_component_ok t))"

section \<open>Listing keys (restore.js: coobVersion, coobName)\<close>

text \<open>
  \<^verbatim>\<open>coobVersion\<close> splits its argument on the dot, keeps the parts that are all
  digits and joins them with dots. \<^verbatim>\<open>coobName\<close> drops the last dot-separated
  part (\<^verbatim>\<open>pop\<close>), removes the first occurrence of the version from what is left
  and cuts the last character (\<^verbatim>\<open>slice(0, -1)\<close>).
\<close>

definition coobVersion :: "string \<Rightarrow> string" where
  "coobVersion coobName =
     (let x = js_split CHR ''.'' coobName;
          x = filter is_numeric x
      in js_join ''.'' x)"

definition coobName :: "string \<Rightarrow> string" where
  "coobName coobName0 =
     (let x = js_split CHR ''.'' coobName0;
          x = butlast x;
          coobName1 = js_join ''.'' x;
          res = js_replace coobName1 (coobVersion coobName1) [];
          res = butlast res
      in res)"

section \<open>Version comparison (restore.js: versionCompare inside coobLatestVersion)\<close>

text \<open>
  The result of \<^verbatim>\<open>versionCompare\<close> is a JavaScript number: \<open>NaN\<close>, or one of
  -1, 0 and 1. The third argument is optional (\<open>None\<close> is \<^verbatim>\<open>undefined\<close>, as at
  the only call site).
\<close>

datatype js_number = NaN | Num int

record options =
  lexicographical :: bool
  zeroExtend :: bool

definition is_alpha :: "char \<Rightarrow> bool" where
  "is_alpha c = ((CHR ''A'' \<le> c \<and> c \<le> CHR ''Z'') \<or> (CHR ''a'' \<le> c \<and> c \<le> CHR ''z''))"

text \<open>\<^verbatim>\<open>(lexicographical ? /^\d+[A-Za-z]*$/ : /^\d+$/).test(x)\<close>\<close>

definition isValidPart :: "bool \<Rightarrow> string \<Rightarrow> bool" where
  "isValidPart lexicographical_flag x =
     (if lexicographical_flag
      then takeWhile is_digit x \<noteq> [] \<and> list_all is_alpha (dropWhile is_digit x)
      else is_numeric x)"

text \<open>
  \<^verbatim>\<open>Number(x)\<close> on a string of decimal digits is its value (exact below
  \<open>2^53\<close>, which covers every component of a valid version).
\<close>

definition Number :: "string \<Rightarrow> nat" where
  "Number x = decimal_value x"

text \<open>
  The comparison loop \<^verbatim>\<open>for (i = 0; i < v1parts.length; ++i)\<close>, as a recursion
  on what is left of both arrays from index \<open>i\<close> on: \<open>Some r\<close> when the loop
  returns \<open>r\<close>, \<open>None\<close> when it runs to its end. The same loop compares numbers
  (the default) and strings (the lexicographical option).
\<close>

fun compare_loop :: "'a::linorder list \<Rightarrow> 'a list \<Rightarrow> int option" where
  "compare_loop [] v2parts = None"
| "compare_loop (a # v1parts) [] = Some 1"
| "compare_loop (a # v1parts) (b # v2parts) =
     (if a = b then compare_loop v1parts v2parts
      else if a > b then Some 1
      else Some (- 1))"

definition compare_parts :: "'a::linorder list \<Rightarrow> 'a list \<Rightarrow> js_number" where
  "compare_parts v1parts v2parts =
     (case compare_loop v1parts v2parts of
        Some r \<Rightarrow> Num r
      | None \<Rightarrow> if length v1parts \<noteq> length v2parts then Num (- 1) else Num 0)"

definition versionCompare :: "string \<Rightarrow> string \<Rightarrow> options option \<Rightarrow> js_number" where
  "versionCompare v1 v2 opts =
     (let lexicographical_flag = (case opts of None \<Rightarrow> False | Some opt \<Rightarrow> lexicographical opt);
          zeroExtend_flag = (case opts of None \<Rightarrow> False | Some opt \<Rightarrow> zeroExtend opt);
          v1parts = js_split CHR ''.'' v1;
          v2parts = js_split CHR ''.'' v2
      in
        if \<not> list_all (isValidPart lexicographical_flag) v1parts
            \<or> \<not> list_all (isValidPart lexicographical_flag) v2parts
        then NaN
        else
          let v1parts = (if zeroExtend_flag
                         then v1parts @ replicate (length v2parts - length v1parts) ''0''
                         else v1parts);
              v2parts = (if zeroExtend_flag
                         then v2parts @ replicate (length v1parts - length v2parts) ''0''
                         else v2parts)
          in if \<not> lexicographical_flag
             then compare_parts (map Number v1parts) (map Number v2parts)
             else compare_parts v1parts v2parts)"

section \<open>Latest version of a package in a listing (restore.js: coobLatestVersion)\<close>

text \<open>
  \<^verbatim>\<open>Array.prototype.sort\<close> with a comparator: a comparator result of \<open>NaN\<close>
  counts as 0, and an element goes before another only when the comparator is negative.
  For a consistent comparator ECMAScript fixes the result: the elements in ascending
  order, equal elements in the order they had. That is the stable insertion sort below.
  \<^verbatim>\<open>versionCompare\<close> is consistent on version strings whose parts are all numeric;
  when it returns \<open>NaN\<close> for some pairs only, the standard leaves the order to the
  engine, and the insertion sort is one of the orders an engine may produce. The
  statements about the element that ends up last are made for listings whose versions are
  valid, where the comparator is a total order.
\<close>

fun comparator_negative :: "js_number \<Rightarrow> bool" where
  "comparator_negative NaN = False"
| "comparator_negative (Num n) = (n < 0)"

fun insert_sorted :: "('a \<Rightarrow> 'a \<Rightarrow> js_number) \<Rightarrow> 'a \<Rightarrow> 'a list \<Rightarrow> 'a list" where
  "insert_sorted cmp x [] = [x]"
| "insert_sorted cmp x (y # ys) =
     (if comparator_negative (cmp x y) then x # y # ys else y # insert_sorted cmp x ys)"

definition js_sort :: "('a \<Rightarrow> 'a \<Rightarrow> js_number) \<Rightarrow> 'a list \<Rightarrow> 'a list" where
  "js_sort cmp xs = foldl (\<lambda>acc x. insert_sorted cmp x acc) [] xs"

text \<open>
  The body of the listing is the list of its keys, as \<^verbatim>\<open>Object.keys(body)\<close>
  returns them. The result is \<^verbatim>\<open>x[x.length - 1]\<close>: \<open>None\<close> stands for
  \<^verbatim>\<open>undefined\<close>, which is what the index -1 of an empty array yields. The
  function has two parameters, the package name and the body: there is no ceiling version.
\<close>

definition coobLatestVersion :: "string \<Rightarrow> string list \<Rightarrow> string option" where
  "coobLatestVersion coobName0 body =
     (let x = body;
          x = filter (\<lambda>e. coobName e = coobName0) x;
          x = map (\<lambda>e. coobVersion e) x;
          x = js_sort (\<lambda>a b. versionCompare a b None) x
      in if x = [] then None else Some (last x))"

section \<open>The folder name of the PowerShell module (Coral.Composition.Bundle.psm1: Restore-Coob)\<close>

text \<open>
  The extraction folder of \<^verbatim>\<open>Restore-Coob\<close>: the group \<^verbatim>\<open>coobName\<close> of
  the first match of
  \<^verbatim>\<open>(?<coobName>.+)\.(?<coobVersion>\d+\.\d+\.\d+(.\d)*)\<close> in the full name (for a
  name without line breaks). The group \<^verbatim>\<open>.+\<close> is greedy: it ends at the last dot
  that has at least one character before it and three dot-separated runs of digits after
  it; without a match the group is empty.
\<close>

definition digits_run :: "string \<Rightarrow> string option" where
  "digits_run s = (if takeWhile is_digit s = [] then None else Some (dropWhile is_digit s))"

definition version_at :: "string \<Rightarrow> bool" where
  "version_at s =
     (case s of
        [] \<Rightarrow> False
      | c # r0 \<Rightarrow>
          c = CHR ''.'' \<and>
          (case digits_run r0 of
             None \<Rightarrow> False
           | Some r1 \<Rightarrow>
               (case r1 of
                  [] \<Rightarrow> False
                | c1 # r2 \<Rightarrow>
                    c1 = CHR ''.'' \<and>
                    (case digits_run r2 of
                       None \<Rightarrow> False
                     | Some r3 \<Rightarrow>
                         (case r3 of
                            [] \<Rightarrow> False
                          | c2 # r4 \<Rightarrow> c2 = CHR ''.'' \<and> digits_run r4 \<noteq> None)))))"

definition coobNameWithoutVersion :: "string \<Rightarrow> string" where
  "coobNameWithoutVersion CoobName =
     (case filter (\<lambda>i. version_at (drop i CoobName)) (rev [1..<length CoobName]) of
        [] \<Rightarrow> []
      | i # _ \<Rightarrow> take i CoobName)"

section \<open>The restore run (restore.js: class RestoreUnit)\<close>

subsection \<open>Paths and URLs\<close>

text \<open>
  \<^verbatim>\<open>path.join\<close>, in its POSIX form: the operands that are not empty are put
  together with the separator between them, and the result is normalised. Normalisation
  goes through the segments between separators from left to right: an empty segment and a
  dot are dropped; a dot-dot removes the segment kept last, and when there is none to
  remove (or the last one is itself a dot-dot) it is kept in a relative path and dropped in
  an absolute one. A leading and a trailing separator stay, and the path without any
  segment is the dot (the root, for an absolute path).
\<close>

fun normalizeString :: "bool \<Rightarrow> string list \<Rightarrow> string list \<Rightarrow> string list" where
  "normalizeString allowAboveRoot res [] = res"
| "normalizeString allowAboveRoot res (seg # rest) =
     (if seg = [] \<or> seg = ''.'' then normalizeString allowAboveRoot res rest
      else if seg = ''..'' then
        (if res \<noteq> [] \<and> last res \<noteq> ''..''
         then normalizeString allowAboveRoot (butlast res) rest
         else if allowAboveRoot then normalizeString allowAboveRoot (res @ [''..'']) rest
         else normalizeString allowAboveRoot res rest)
      else normalizeString allowAboveRoot (res @ [seg]) rest)"

definition path_normalize :: "string \<Rightarrow> string" where
  "path_normalize path =
     (if path = [] then ''.''
      else
        let isAbsolute = (hd path = CHR ''/'');
            trailingSeparator = (last path = CHR ''/'');
            segs = normalizeString (\<not> isAbsolute) [] (js_split CHR ''/'' path)
        in if segs = []
           then (if isAbsolute then ''/'' else if trailingSeparator then ''./'' else ''.'')
           else (if isAbsolute then ''/'' else []) @ js_join ''/'' segs @
                (if trailingSeparator then ''/'' else []))"

definition path_join_list :: "string list \<Rightarrow> string" where
  "path_join_list args =
     (let joined = js_join ''/'' (filter (\<lambda>arg. arg \<noteq> []) args)
      in if joined = [] then ''.'' else path_normalize joined)"

definition path_join :: "string \<Rightarrow> string \<Rightarrow> string" where
  "path_join a b = path_join_list [a, b]"

definition svcUrl :: string where
  "svcUrl = ''http://coobs.sftconsult.synology.me:5000/''"

text \<open>String concatenation converts \<^verbatim>\<open>undefined\<close> (\<open>None\<close>) to the text \<open>undefined\<close>.\<close>

definition js_string :: "string option \<Rightarrow> string" where
  "js_string v = (case v of None \<Rightarrow> ''undefined'' | Some s \<Rightarrow> s)"

text \<open>The decimal text of a number, as string concatenation produces it for a status code.\<close>

fun js_nat_string :: "nat \<Rightarrow> string" where
  "js_nat_string n =
     (if n < 10 then [''0123456789'' ! n]
      else js_nat_string (n div 10) @ [''0123456789'' ! (n mod 10)])"

declare js_nat_string.simps [simp del]

definition coobUrl :: "string \<Rightarrow> string option \<Rightarrow> string" where
  "coobUrl coobName0 coobVersion0 = svcUrl @ coobName0 @ ''.'' @ js_string coobVersion0 @ ''.coob''"

definition coobDest :: "string \<Rightarrow> string \<Rightarrow> string option \<Rightarrow> string" where
  "coobDest coobsDir coobName0 coobVersion0 =
     path_join coobsDir (coobName0 @ ''.'' @ js_string coobVersion0 @ ''.zip'')"

definition coobDestFolder :: "string \<Rightarrow> string \<Rightarrow> string" where
  "coobDestFolder coobsDir coobName0 = path_join coobsDir coobName0"

definition coobPropsFile :: "string \<Rightarrow> string \<Rightarrow> string" where
  "coobPropsFile coobsDir coobName0 = path_join_list [coobsDir, coobName0, ''coob.props'']"

subsection \<open>The outside world and the state of a run\<close>

text \<open>
  What a run does outside the process is recorded as a trace of events, in the order in
  which the calls are made, together with the files and folders on disk. Console output
  is the event \<open>Log\<close>; the other events carry the paths as the calls receive them.
\<close>

datatype event =
    GetPage string
  | Log string
  | EnsureDir string
  | EmptyDir string
  | Download string string
  | Unzip string string
  | Unlink string
  | ReadProps string

text \<open>
  A file or a folder on disk is a node: the root of its path (\<open>True\<close> for the root of
  the file system, \<open>False\<close> for the working folder of the process) and the segments that
  lead to it. Of a normalised path, as \<^verbatim>\<open>path.join\<close> returns it, the node is read
  off the text: the path is absolute when it starts with the separator, and its segments
  are the pieces between separators, without the empty ones and the dot. The paths of a
  run are all joined onto the folder of packages and have its root; two of them name the
  same file or folder exactly when they have the same node. Names are compared as texts,
  as a file system does that distinguishes upper and lower case; links between folders are
  not part of the model.
\<close>

type_synonym node = "bool \<times> string list"

definition node_of :: "string \<Rightarrow> node" where
  "node_of path =
     (path \<noteq> [] \<and> hd path = CHR ''/'',
      filter (\<lambda>seg. seg \<noteq> [] \<and> seg \<noteq> ''.'') (js_split CHR ''/'' path))"

text \<open>
  A node lies below a folder when its segments continue those of the folder, by segments
  that go down (a dot-dot among them would lead out of the folder again).
\<close>

definition below :: "node \<Rightarrow> node \<Rightarrow> bool" where
  "below folder p =
     (fst p = fst folder \<and> strict_prefix (snd folder) (snd p)
      \<and> ''..'' \<notin> set (drop (length (snd folder)) (snd p)))"

text \<open>A folder together with the folders that lead to it from the root of its path.\<close>

definition folder_chain :: "node \<Rightarrow> node set" where
  "folder_chain folder = (\<lambda>segs. (fst folder, segs)) ` set (tl (prefixes (snd folder)))"

text \<open>
  A name that can stand for one segment of a path: not empty, neither the dot nor the
  dot-dot, and without a separator.
\<close>

definition path_segment :: "string \<Rightarrow> bool" where
  "path_segment s = (s \<noteq> [] \<and> s \<noteq> ''.'' \<and> s \<noteq> ''..'' \<and> CHR ''/'' \<notin> set s)"

text \<open>
  The nodes of the entries the unzip tool creates in its output folder, from their
  names; a text that is no path segment is not the name of an entry.
\<close>

definition entry_nodes :: "string \<Rightarrow> string set \<Rightarrow> node set" where
  "entry_nodes folder entries =
     (\<lambda>entry. (fst (node_of folder), snd (node_of folder) @ [entry])) `
       {entry \<in> entries. path_segment entry}"

record fs_state =
  trace :: "event list"
  nodes :: "node set"

text \<open>What a folder holds: the nodes below it.\<close>

definition folder_contents :: "fs_state \<Rightarrow> string \<Rightarrow> node set" where
  "folder_contents st folder = {p \<in> nodes st. below (node_of folder) p}"

text \<open>
  How a promise ends: fulfilled, rejected with a message, never settled (\<open>Pending\<close>),
  or cut short because an exception nobody catches ends the process (\<open>Crashed\<close>).
\<close>

datatype outcome = Fulfilled | Rejected string | Pending | Crashed

text \<open>
  The answers of the outside world. A listing request ends with a network error or with a
  status code and the keys of the JSON body; an archive request streams a payload or ends
  with a network error; the unzip tool reports success or failure and has written some
  entries into the output folder by then; the properties tool fails or returns the
  references of the package, each with an id and a version.
\<close>

datatype page_response = PageError | PageStatus nat "string list"

datatype archive_response = ArchiveError | ArchiveBody string

record reference =
  ref_id :: string
  ref_version :: string

datatype props_result = PropsFailed string | Props "reference list"

record world =
  http_page :: "string \<Rightarrow> page_response"
  http_archive :: "string \<Rightarrow> archive_response"
  devtool_unzip :: "string \<Rightarrow> bool \<times> string set"
  devtool_CoobProps :: "string \<Rightarrow> props_result"

definition emit :: "event \<Rightarrow> fs_state \<Rightarrow> fs_state" where
  "emit e st = st\<lparr>trace := trace st @ [e]\<rparr>"

text \<open>
  \<^verbatim>\<open>fsx.ensureDirSync\<close> creates the folder, and the folders that lead to it, when
  they are missing. \<^verbatim>\<open>fsx.emptyDirSync\<close> removes everything below the folder,
  folders with all they hold included, and creates the folder when it is missing.
  \<^verbatim>\<open>fs.createWriteStream\<close> creates the file it writes to, and
  \<^verbatim>\<open>fs.unlinkSync\<close> removes it. Errors of the file system itself (a file where a
  folder is expected, missing permissions) are not part of the model.
\<close>

definition ensureDirSync :: "string \<Rightarrow> fs_state \<Rightarrow> fs_state" where
  "ensureDirSync folder st =
     (let st = emit (EnsureDir folder) st
      in st\<lparr>nodes := nodes st \<union> folder_chain (node_of folder)\<rparr>)"

definition emptyDirSync :: "string \<Rightarrow> fs_state \<Rightarrow> fs_state" where
  "emptyDirSync folder st =
     (let st = emit (EmptyDir folder) st
      in st\<lparr>nodes := {p \<in> nodes st. \<not> below (node_of folder) p}
                      \<union> folder_chain (node_of folder)\<rparr>)"

definition createWriteStream :: "string \<Rightarrow> fs_state \<Rightarrow> fs_state" where
  "createWriteStream filename st = st\<lparr>nodes := insert (node_of filename) (nodes st)\<rparr>"

definition unlinkSync :: "string \<Rightarrow> fs_state \<Rightarrow> fs_state" where
  "unlinkSync filename st =
     (let st = emit (Unlink filename) st
      in st\<lparr>nodes := nodes st - {node_of filename}\<rparr>)"

subsection \<open>restoreCoob\<close>

text \<open>
  The promise of \<^verbatim>\<open>restoreCoob\<close> is fulfilled after the archive has been
  downloaded, unzipped and deleted. A network error of the download is an
  \<^verbatim>\<open>error\<close> event without a listener, which ends the process. When the unzip
  tool fails, the handler \<^verbatim>\<open>.catch(err => { throw ... })\<close> only throws inside the
  inner promise chain: neither \<^verbatim>\<open>resolve\<close> nor \<^verbatim>\<open>reject\<close> is called
  and the promise stays pending. The unzip tool writes into its output folder: what it
  has written when it returns is the set of the entries it created there.
\<close>

definition restoreCoob ::
  "world \<Rightarrow> string \<Rightarrow> string \<Rightarrow> string option \<Rightarrow> fs_state \<Rightarrow> outcome \<times> fs_state" where
  "restoreCoob w coobsDir coobName0 coobVersion0 st =
     (let url = coobUrl coobName0 coobVersion0;
          filename = coobDest coobsDir coobName0 coobVersion0;
          folder = coobDestFolder coobsDir coobName0;
          st = emit (Log (''Downloading '' @ url @ ''...'')) st;
          st = ensureDirSync folder st;
          st = emptyDirSync folder st;
          st = emit (Download url filename) st;
          st = createWriteStream filename st
      in case http_archive w url of
           ArchiveError \<Rightarrow> (Crashed, st)
         | ArchiveBody payload \<Rightarrow>
             let st = emit (Unzip filename (coobDestFolder coobsDir coobName0)) st;
                 result = devtool_unzip w payload;
                 st = st\<lparr>nodes := nodes st \<union>
                         entry_nodes (coobDestFolder coobsDir coobName0) (snd result)\<rparr>
             in if fst result
                then (Fulfilled, unlinkSync filename st)
                else (Pending, st))"

subsection \<open>restore\<close>

record restore_opts =
  opt_coobsDir :: string
  opt_coobName :: string
  opt_coobVersion :: "string option"

text \<open>The loop \<^verbatim>\<open>for (var p in references)\<close>: each call is awaited before the next.\<close>

fun restore_references ::
  "world \<Rightarrow> string \<Rightarrow> reference list \<Rightarrow> fs_state \<Rightarrow> outcome \<times> fs_state" where
  "restore_references w coobsDir [] st = (Fulfilled, st)"
| "restore_references w coobsDir (coob # references) st =
     (case restoreCoob w coobsDir (ref_id coob) (Some (ref_version coob)) st of
        (Fulfilled, st') \<Rightarrow> restore_references w coobsDir references st'
      | (other, st') \<Rightarrow> (other, st'))"

text \<open>
  \<^verbatim>\<open>downloadPage\<close> rejects on a status code other than 200, with the message
  \<^verbatim>\<open>'Invalid status code <' + response.statusCode + '>'\<close>; on a network error
  it rejects and then reads \<^verbatim>\<open>response.statusCode\<close> of an undefined response
  inside the callback of the request, an exception nobody catches.
\<close>

definition restore :: "world \<Rightarrow> restore_opts \<Rightarrow> fs_state \<Rightarrow> outcome \<times> fs_state" where
  "restore w opts st =
     (let st = emit (GetPage svcUrl) st
      in case http_page w svcUrl of
           PageError \<Rightarrow> (Crashed, st)
         | PageStatus statusCode body \<Rightarrow>
             if statusCode \<noteq> 200
             then (Rejected (''Invalid status code <'' @ js_nat_string statusCode @ ''>''), st)
             else
               (let name = opt_coobName opts;
                    latestVersion = coobLatestVersion name body;
                    useVersion =
                      (if \<not> (opt_coobVersion opts = None \<or> opt_coobVersion opts = Some [])
                       then opt_coobVersion opts
                       else latestVersion)
                in (case restoreCoob w (opt_coobsDir opts) name useVersion st of
                      (Fulfilled, st) \<Rightarrow>
                        (let propsFile = coobPropsFile (opt_coobsDir opts) name;
                             st = emit (ReadProps propsFile) st
                         in (case devtool_CoobProps w propsFile of
                               PropsFailed err \<Rightarrow> (Rejected err, st)
                             | Props references \<Rightarrow>
                                 (case restore_references w (opt_coobsDir opts) references st of
                                    (Fulfilled, st) \<Rightarrow>
                                      (Fulfilled, emit (Log ''All coobs are restored.'') st)
                                  | (other, st) \<Rightarrow> (other, st))))
                    | (other, st) \<Rightarrow> (other, st))))"

section \<open>The restore command (restore-tools: RestoreCoobsCommand; ccm: the restore action)\<close>

text \<open>
  A promise is settled by the first call of \<^verbatim>\<open>resolve\<close> or \<^verbatim>\<open>reject\<close>
  its executor makes; later calls have no effect.
\<close>

datatype settle = Resolve | Reject string

definition promise_state :: "settle list \<Rightarrow> outcome" where
  "promise_state calls =
     (case calls of
        [] \<Rightarrow> Pending
      | Resolve # later \<Rightarrow> Fulfilled
      | Reject message # later \<Rightarrow> Rejected message)"

text \<open>
  The executor of \<^verbatim>\<open>RestoreCoobsCommand\<close>, as the calls it makes in program order.
  Without a package name it rejects through \<^verbatim>\<open>ErrorAndRejectConsole\<close>. Otherwise it
  starts the run and evaluates \<^verbatim>\<open>restoreUnit.restore().then(resolve())\<close>: the
  argument \<^verbatim>\<open>resolve()\<close> is a call, made at once, before the run has settled. The
  handler of the inner \<^verbatim>\<open>catch\<close> runs when the run is rejected; it names the
  undeclared variable \<^verbatim>\<open>errorMessage\<close> and throws before it reaches
  \<^verbatim>\<open>reject\<close>, so it adds no call. The handler of the outer \<^verbatim>\<open>catch\<close>
  names \<^verbatim>\<open>reject\<close> outside its scope: it turns a rejection into another one.
\<close>

definition outer_catch :: "outcome \<Rightarrow> outcome" where
  "outer_catch p =
     (case p of
        Rejected message \<Rightarrow> Rejected ''ReferenceError: reject is not defined''
      | other \<Rightarrow> other)"

definition RestoreCoobsCommand ::
  "world \<Rightarrow> string \<Rightarrow> string option \<Rightarrow> string option \<Rightarrow> bool \<Rightarrow> fs_state \<Rightarrow>
   outcome \<times> (outcome \<times> fs_state) option" where
  "RestoreCoobsCommand w coobsDir coobName0 coobVersion0 overwrite st =
     (if coobName0 = None \<or> coobName0 = Some []
      then
        (outer_catch (promise_state
           [Reject ''Failed to execute restore command. CoobName argument is not defined.'']),
         None)
      else
        let opts = \<lparr>opt_coobsDir = coobsDir, opt_coobName = the coobName0,
                    opt_coobVersion = coobVersion0\<rparr>;
            run = restore w opts st;
            calls = [Resolve] @ (case fst run of Rejected err \<Rightarrow> [] | other \<Rightarrow> [])
        in (outer_catch (promise_state calls), Some run))"

text \<open>
  \<^verbatim>\<open>exit(code)\<close> sets the exit code of the process to \<^verbatim>\<open>code || 0\<close>. The
  action of the command calls \<^verbatim>\<open>exit(0)\<close> when the promise of the command is
  fulfilled and \<^verbatim>\<open>exit(-1)\<close> when it is rejected; \<open>None\<close> when neither handler
  runs.
\<close>

definition exit_code :: "int \<Rightarrow> int" where
  "exit_code code = (if code = 0 then 0 else code)"

definition restore_action ::
  "world \<Rightarrow> string \<Rightarrow> string option \<Rightarrow> string option \<Rightarrow> bool \<Rightarrow> fs_state \<Rightarrow>
   int option \<times> (outcome \<times> fs_state) option" where
  "restore_action w coobsDir coobName0 coobVersion0 overwrite st =
     (let command = RestoreCoobsCommand w coobsDir coobName0 coobVersion0 overwrite st
      in case fst command of
           Fulfilled \<Rightarrow> (Some (exit_code 0), snd command)
         | Rejected err \<Rightarrow> (Some (exit_code (- 1)), snd command)
         | other \<Rightarrow> (None, snd command))"

section \<open>Observations on runs and the scenarios of the specification\<close>

text \<open>The parsed form of a version string: the numbers of its dot-separated components.\<close>

definition version_components :: "string \<Rightarrow> nat list" where
  "version_components v = map Number (js_split CHR ''.'' v)"

text \<open>The listing requests and the archive downloads of a trace, in their order.\<close>

fun page_request :: "event \<Rightarrow> string list" where
  "page_request (GetPage url) = [url]"
| "page_request other = []"

fun archive_fetch :: "event \<Rightarrow> string list" where
  "archive_fetch (Download url filename) = [url]"
| "archive_fetch other = []"

definition page_requests :: "fs_state \<Rightarrow> string list" where
  "page_requests st = concat (map page_request (trace st))"

definition archive_fetches :: "fs_state \<Rightarrow> string list" where
  "archive_fetches st = concat (map archive_fetch (trace st))"

text \<open>
  The version a run uses for the root package, as \<open>restore\<close> computes it from the
  options and the body of the listing.
\<close>

definition used_version :: "restore_opts \<Rightarrow> string list \<Rightarrow> string option" where
  "used_version opts body =
     (if \<not> (opt_coobVersion opts = None \<or> opt_coobVersion opts = Some [])
      then opt_coobVersion opts
      else coobLatestVersion (opt_coobName opts) body)"

text \<open>
  A fetch succeeds when its archive arrives and the unzip tool reports success. Of a list
  of references, the run reaches those up to and including the first whose fetch does not
  succeed.
\<close>

definition fetch_ok :: "world \<Rightarrow> string \<Rightarrow> bool" where
  "fetch_ok w url =
     (case http_archive w url of
        ArchiveError \<Rightarrow> False
      | ArchiveBody payload \<Rightarrow> fst (devtool_unzip w payload))"

definition reference_url :: "reference \<Rightarrow> string" where
  "reference_url coob = coobUrl (ref_id coob) (Some (ref_version coob))"

definition up_to_first_failure :: "world \<Rightarrow> reference list \<Rightarrow> reference list" where
  "up_to_first_failure w references =
     takeWhile (\<lambda>coob. fetch_ok w (reference_url coob)) references @
     take 1 (dropWhile (\<lambda>coob. fetch_ok w (reference_url coob)) references)"

text \<open>The events of one call of \<open>restoreCoob\<close>, from its first to its last.\<close>

definition coob_events :: "world \<Rightarrow> string \<Rightarrow> string \<Rightarrow> string option \<Rightarrow> event list" where
  "coob_events w coobsDir coobName0 coobVersion0 =
     [Log (''Downloading '' @ coobUrl coobName0 coobVersion0 @ ''...''),
      EnsureDir (coobDestFolder coobsDir coobName0),
      EmptyDir (coobDestFolder coobsDir coobName0),
      Download (coobUrl coobName0 coobVersion0) (coobDest coobsDir coobName0 coobVersion0)] @
     (case http_archive w (coobUrl coobName0 coobVersion0) of
        ArchiveError \<Rightarrow> []
      | ArchiveBody payload \<Rightarrow>
          Unzip (coobDest coobsDir coobName0 coobVersion0) (coobDestFolder coobsDir coobName0) #
          (if fst (devtool_unzip w payload)
           then [Unlink (coobDest coobsDir coobName0 coobVersion0)]
           else []))"

text \<open>
  The events of a whole run, stage by stage: the listing request; the fetch of the root
  package; the reading of its properties when that fetch succeeded; the fetches of the
  references in their order, up to and including the first that does not succeed; the
  final message when all of them succeeded.
\<close>

definition restore_events :: "world \<Rightarrow> restore_opts \<Rightarrow> event list" where
  "restore_events w opts =
     GetPage svcUrl #
     (case http_page w svcUrl of
        PageError \<Rightarrow> []
      | PageStatus statusCode body \<Rightarrow>
          if statusCode \<noteq> 200 then []
          else
            coob_events w (opt_coobsDir opts) (opt_coobName opts) (used_version opts body) @
            (if fetch_ok w (coobUrl (opt_coobName opts) (used_version opts body))
             then
               ReadProps (coobPropsFile (opt_coobsDir opts) (opt_coobName opts)) #
               (case devtool_CoobProps w (coobPropsFile (opt_coobsDir opts) (opt_coobName opts)) of
                  PropsFailed err \<Rightarrow> []
                | Props references \<Rightarrow>
                    concat (map (\<lambda>coob. coob_events w (opt_coobsDir opts) (ref_id coob)
                                          (Some (ref_version coob)))
                              (up_to_first_failure w references)) @
                    (if list_all (\<lambda>coob. fetch_ok w (reference_url coob)) references
                     then [Log ''All coobs are restored.'']
                     else []))
             else []))"

text \<open>
  An empty disk, and a disk that holds two package folders of an earlier run: the folder
  of \<open>Coral.Common\<close> with the file \<open>old.dll\<close> and the folder of \<open>Coral.Atoll\<close>
  with the file \<open>coob.props\<close>.
\<close>

definition empty_disk :: fs_state where
  "empty_disk = \<lparr>trace = [], nodes = {}\<rparr>"

definition earlier_disk :: fs_state where
  "earlier_disk =
     \<lparr>trace = [],
      nodes = {(False, [''Coobs'']),
               (False, [''Coobs'', ''Coral.Common'']),
               (False, [''Coobs'', ''Coral.Common'', ''old.dll'']),
               (False, [''Coobs'', ''Coral.Atoll'']),
               (False, [''Coobs'', ''Coral.Atoll'', ''coob.props''])}\<rparr>"

text \<open>
  The end-to-end scenario of the specification: the root \<open>Coral.Atoll\<close> with the
  explicit version \<open>2.0.0\<close>, whose manifest declares the one dependency
  \<open>Coral.Common.1.4.2\<close>; every request and every tool call succeeds.
\<close>

definition scenario_world :: world where
  "scenario_world =
     \<lparr>http_page = (\<lambda>url. PageStatus 200 [''Coral.Atoll.2.0.0.coob'', ''Coral.Common.1.4.2.coob'']),
      http_archive = (\<lambda>url. ArchiveBody ''zip''),
      devtool_unzip = (\<lambda>payload. (True, {''coob.props''})),
      devtool_CoobProps = (\<lambda>propsFile. Props [\<lparr>ref_id = ''Coral.Common'', ref_version = ''1.4.2''\<rparr>])\<rparr>"

definition scenario_opts :: restore_opts where
  "scenario_opts =
     \<lparr>opt_coobsDir = ''Coobs'', opt_coobName = ''Coral.Atoll'', opt_coobVersion = Some ''2.0.0''\<rparr>"

text \<open>
  A repository whose listing is empty and which answers every archive request with an
  error page (the body is streamed to the file whatever the status code), on which the
  unzip tool fails without writing; the request names the package \<open>foo\<close> and no
  version.
\<close>

definition empty_listing_world :: world where
  "empty_listing_world =
     \<lparr>http_page = (\<lambda>url. PageStatus 200 []),
      http_archive = (\<lambda>url. ArchiveBody ''Not Found''),
      devtool_unzip = (\<lambda>payload. (False, {})),
      devtool_CoobProps = (\<lambda>propsFile. PropsFailed ''no coob.props'')\<rparr>"

definition latest_opts :: restore_opts where
  "latest_opts = \<lparr>opt_coobsDir = ''Coobs'', opt_coobName = ''foo'', opt_coobVersion = None\<rparr>"

text \<open>A repository that answers the listing request with the status code 500.\<close>

definition failing_listing_world :: world where
  "failing_listing_world =
     \<lparr>http_page = (\<lambda>url. PageStatus 500 []),
      http_archive = (\<lambda>url. ArchiveError),
      devtool_unzip = (\<lambda>payload. (False, {})),
      devtool_CoobProps = (\<lambda>propsFile. PropsFailed ''no coob.props'')\<rparr>"

text \<open>An unzip tool that fails after it has written one entry of the archive.\<close>

definition partial_unzip_world :: world where
  "partial_unzip_world =
     \<lparr>http_page = (\<lambda>url. PageStatus 200 []),
      http_archive = (\<lambda>url. ArchiveBody ''truncated zip''),
      devtool_unzip = (\<lambda>payload. (False, {''coob.props''})),
      devtool_CoobProps = (\<lambda>propsFile. PropsFailed ''no coob.props'')\<rparr>"

section \<open>Facts about characters and digits\<close>

lemma is_digit_nat: "is_digit c \<longleftrightarrow> 48 \<le> (of_char c :: nat) \<and> (of_char c :: nat) \<le> 57"
  by (auto simp: is_digit_def less_char_def)

lemma digit_chars_image:
  "char_of ` {48::nat, 49, 50, 51, 52, 53, 54, 55, 56, 57} = set ''0123456789''"
  by code_simp

lemma is_digit_iff: "is_digit c \<longleftrightarrow> c \<in> set ''0123456789''"
proof
  assume "is_digit c"
  then have "(of_char c :: nat) \<in> {48, 49, 50, 51, 52, 53, 54, 55, 56, 57}"
    unfolding is_digit_nat by simp arith
  then have "char_of (of_char c :: nat) \<in> char_of ` {48::nat, 49, 50, 51, 52, 53, 54, 55, 56, 57}"
    by (rule imageI)
  then have "c \<in> char_of ` {48::nat, 49, 50, 51, 52, 53, 54, 55, 56, 57}"
    by (simp only: char_of_char)
  then show "c \<in> set ''0123456789''"
    unfolding digit_chars_image .
next
  assume "c \<in> set ''0123456789''"
  then show "is_digit c" by (auto simp: is_digit_def)
qed

lemma digits_loop_iff: "digits_loop cs = list_all is_digit cs"
  by (induction cs) (auto simp: is_digit_def)

lemma takeWhile_all: "list_all P xs \<Longrightarrow> takeWhile P xs = xs"
  by (induction xs) auto

lemma first_digit_zero:
  "(c < CHR ''1'' \<or> c > CHR ''9'') = (\<not> is_digit c \<or> c = CHR ''0'')"
proof -
  have "(of_char c :: nat) = 48 \<longleftrightarrow> c = CHR ''0''"
  proof
    assume "(of_char c :: nat) = 48"
    then have "char_of (of_char c :: nat) = char_of (48::nat)" by simp
    moreover have "char_of (48::nat) = CHR ''0''" by code_simp
    ultimately show "c = CHR ''0''" by (simp only: char_of_char)
  qed simp
  then show ?thesis
    unfolding is_digit_nat by (auto simp: less_char_def)
qed

lemma digit_value_le: "is_digit c \<Longrightarrow> digit_value c \<le> 9"
  unfolding is_digit_nat digit_value_def by simp arith

section \<open>Version validation agrees with the rule of the specification\<close>

lemma spec_component_ok_alt:
  "spec_component_ok t =
     (t \<noteq> [] \<and> list_all is_digit t \<and> (hd t \<noteq> CHR ''0'' \<or> t = ''0'') \<and>
      decimal_value t \<le> 2147483647)"
  unfolding spec_component_ok_def is_digit_iff [symmetric] by (simp add: list_all_iff)

lemma component_single: "IsValidVersionComponent [c] = is_digit c"
  by (simp add: IsValidVersionComponent_def is_digit_def)

lemma component_long:
  "IsValidVersionComponent (c # d # ds) =
     (list_all is_digit (c # d # ds) \<and> c \<noteq> CHR ''0'' \<and>
      decimal_value (c # d # ds) \<le> 2147483647)"
proof (cases "list_all is_digit (c # d # ds)")
  case True
  then have "parseInt (c # d # ds) = Some (decimal_value (c # d # ds))"
    unfolding parseInt_def by (simp only: takeWhile_all Let_def) simp
  then show ?thesis
    using True
    by (simp add: IsValidVersionComponent_def first_digit_zero digits_loop_iff)
next
  case False
  then show ?thesis
    by (auto simp add: IsValidVersionComponent_def first_digit_zero digits_loop_iff)
qed

lemma component_refines: "IsValidVersionComponent t = spec_component_ok t"
proof (cases t)
  case Nil
  then show ?thesis by (simp add: IsValidVersionComponent_def spec_component_ok_def)
next
  case (Cons c cs)
  note outer = Cons
  show ?thesis
  proof (cases cs)
    case Nil
    have "is_digit c \<Longrightarrow> decimal_value [c] \<le> 2147483647"
      using digit_value_le [of c] by (simp add: decimal_value_def)
    then have "spec_component_ok [c] = is_digit c"
      unfolding spec_component_ok_alt by auto
    then show ?thesis
      using outer Nil component_single by simp
  next
    case (Cons d ds)
    then show ?thesis
      using outer unfolding spec_component_ok_alt
      by (simp only: component_long) auto
  qed
qed

lemma chain_iff:
  "(let parts = ps; len = length parts in
      if len < 2 \<or> len > 4 then False
      else if \<not> P (parts ! 0) \<or> \<not> P (parts ! 1) then False
      else if len < 3 then True
      else if \<not> P (parts ! 2) then False
      else if len < 4 then True
      else P (parts ! 3))
   = (let toks = ps in 2 \<le> length toks \<and> length toks \<le> 4 \<and> (\<forall>t \<in> set toks. P t))"
proof (cases ps)
  case Nil then show ?thesis by simp
next
  case c1: (Cons a p1)
  show ?thesis
  proof (cases p1)
    case Nil then show ?thesis using c1 by simp
  next
    case c2: (Cons b p2)
    show ?thesis
    proof (cases p2)
      case Nil then show ?thesis using c1 c2 by auto
    next
      case c3: (Cons c p3)
      show ?thesis
      proof (cases p3)
        case Nil then show ?thesis using c1 c2 c3 by auto
      next
        case c4: (Cons d p4)
        show ?thesis using c1 c2 c3 c4 by (cases p4) auto
      qed
    qed
  qed
qed

lemma valid_refines: "IsValidVersion s = spec_valid_version s"
  unfolding IsValidVersion_def spec_valid_version_def js_split_limit_def component_refines
  by (rule chain_iff)

lemmas version_eval =
  IsValidVersion_def js_split_limit_def IsValidVersionComponent_def parseInt_def
  is_digit_def decimal_value_def digit_value_def Let_def

lemma malformed_versions:
  "\<not> IsValidVersion ''1.2.3.4.5'' \<and> \<not> IsValidVersion ''1.02'' \<and> \<not> IsValidVersion ''1.x''
   \<and> \<not> IsValidVersion ''1.2147483648'' \<and> \<not> IsValidVersion ''1'' \<and> \<not> IsValidVersion ''1..2''"
  by (simp add: version_eval)

text \<open>
  Claim C6. \<open>IsValidVersion\<close> accepts a string exactly when splitting it on the dot
  into at most 5 tokens yields 2 to 4 components and every component is a non-empty token
  of digits with no leading zero (unless it is exactly \<open>0\<close>) and a value of at most
  2147483647. The function is total and answers with a boolean: strings with extra
  components, leading zeros, characters that are no digits or integers out of range are
  reported invalid.
\<close>

theorem IsValidVersion_meets_rule:
  "IsValidVersion s = spec_valid_version s
   \<and> IsValidVersion ''1.2.3.4.5'' = False
   \<and> IsValidVersion ''1.02'' = False
   \<and> IsValidVersion ''1.x'' = False
   \<and> IsValidVersion ''1.2147483648'' = False"
  using valid_refines [of s] malformed_versions by simp

theorem IsValidVersion_meets_rule_witness:
  "IsValidVersion ''1.2.0'' \<and> spec_valid_version ''1.2.0''
   \<and> IsValidVersion ''0.2147483647'' \<and> spec_valid_version ''0.2147483647''"
proof -
  have a: "IsValidVersion ''1.2.0''" by (simp add: version_eval)
  have b: "IsValidVersion ''0.2147483647''" by (simp add: version_eval)
  from IsValidVersion_meets_rule [of "''1.2.0''"] a have "spec_valid_version ''1.2.0''"
    by simp
  moreover from IsValidVersion_meets_rule [of "''0.2147483647''"] b
  have "spec_valid_version ''0.2147483647''"
    by simp
  ultimately show ?thesis using a b by simp
qed

section \<open>Listing keys: the name and the version of a key\<close>

lemma js_split_not_Nil: "js_split c s \<noteq> []"
  by (induction s) (auto split: list.splits)

lemma js_split_append:
  "js_split c (a @ c # b) = js_split c a @ js_split c b"
proof (induction a)
  case Nil
  show ?case by simp
next
  case (Cons x a)
  obtain p ps where p: "js_split c a = p # ps"
    using js_split_not_Nil [of c a] by (cases "js_split c a") auto
  show ?case using Cons p by (auto split: list.splits)
qed

lemma js_split_parts_subset: "p \<in> set (js_split c s) \<Longrightarrow> set p \<subseteq> set s"
proof (induction s arbitrary: p)
  case Nil
  then show ?case by simp
next
  case (Cons x s)
  obtain q qs where q: "js_split c s = q # qs"
    using js_split_not_Nil [of c s] by (cases "js_split c s") auto
  show ?case
  proof (cases "x = c")
    case True
    with Cons show ?thesis by auto
  next
    case False
    with Cons.prems q have "p = x # q \<or> p \<in> set qs" by auto
    then show ?thesis
    proof
      assume "p = x # q"
      moreover have "set q \<subseteq> set s" using Cons.IH [of q] q by simp
      ultimately show ?thesis by auto
    next
      assume "p \<in> set qs"
      then have "set p \<subseteq> set s" using Cons.IH [of p] q by simp
      then show ?thesis by auto
    qed
  qed
qed

lemma js_join_split: "js_join [c] (js_split c s) = s"
proof (induction s)
  case Nil
  show ?case by simp
next
  case (Cons x s)
  obtain q qs where q: "js_split c s = q # qs"
    using js_split_not_Nil [of c s] by (cases "js_split c s") auto
  show ?case
  proof (cases "x = c")
    case True
    with Cons q show ?thesis by simp
  next
    case False
    with Cons q show ?thesis by (cases qs) auto
  qed
qed

lemma js_join_append:
  "xs \<noteq> [] \<Longrightarrow> ys \<noteq> [] \<Longrightarrow> js_join sep (xs @ ys) = js_join sep xs @ sep @ js_join sep ys"
proof (induction sep xs rule: js_join.induct)
  case (1 sep)
  then show ?case by simp
next
  case (2 sep p)
  then show ?case by (cases ys) auto
next
  case (3 sep p q ps)
  then show ?case by simp
qed

lemma no_digit_not_numeric:
  assumes "\<forall>c \<in> set s. \<not> is_digit c"
  shows "filter is_numeric (js_split d s) = []"
proof -
  have "\<not> is_numeric p" if "p \<in> set (js_split d s)" for p
  proof
    assume "is_numeric p"
    then obtain x where "x \<in> set p" "is_digit x"
      by (cases p) (auto simp: is_numeric_def)
    moreover have "set p \<subseteq> set s" using that by (rule js_split_parts_subset)
    ultimately show False using assms by auto
  qed
  then show ?thesis by (simp add: filter_empty_conv)
qed

lemma js_replace_at_end:
  assumes "\<forall>c \<in> set a. \<not> is_digit c" and "v \<noteq> []" and "is_digit (hd v)"
  shows "js_replace (a @ ''.'' @ v) v [] = a @ ''.''"
  using assms(1)
proof (induction a)
  case Nil
  have "\<not> prefix v (CHR ''.'' # v)"
  proof
    assume "prefix v (CHR ''.'' # v)"
    then have "hd v = CHR ''.''" using assms(2) by (cases v) auto
    then show False using assms(3) by (simp add: is_digit_def)
  qed
  moreover have "js_replace v v [] = []"
    using assms(2) by (cases v) auto
  ultimately show ?case by simp
next
  case (Cons x a)
  have "\<not> prefix v (x # a @ ''.'' @ v)"
  proof
    assume "prefix v (x # a @ ''.'' @ v)"
    then have "hd v = x" using assms(2) by (cases v) auto
    then show False using assms(3) Cons.prems by simp
  qed
  then show ?case using Cons by simp
qed

lemma coobVersion_of_name:
  assumes "\<forall>c \<in> set pid. \<not> is_digit c"
      and "list_all is_numeric (js_split CHR ''.'' v)"
  shows "coobVersion (pid @ ''.'' @ v) = v"
proof -
  have "js_split CHR ''.'' (pid @ ''.'' @ v) = js_split CHR ''.'' pid @ js_split CHR ''.'' v"
    using js_split_append [of "CHR ''.''" pid v] by simp
  moreover have "filter is_numeric (js_split CHR ''.'' v) = js_split CHR ''.'' v"
    using assms(2) by (simp add: list_all_iff)
  ultimately show ?thesis
    using no_digit_not_numeric [OF assms(1), of "CHR ''.''"] js_join_split [of "CHR ''.''" v]
    by (simp add: coobVersion_def)
qed

lemma split_key:
  "js_split CHR ''.'' (pid @ ''.'' @ v @ ''.coob'')
     = js_split CHR ''.'' pid @ js_split CHR ''.'' v @ [''coob'']"
proof -
  have "js_split CHR ''.'' (v @ ''.coob'') = js_split CHR ''.'' v @ [''coob'']"
    using js_split_append [of "CHR ''.''" v "''coob''"] by simp
  then show ?thesis
    using js_split_append [of "CHR ''.''" pid "v @ ''.coob''"] by simp
qed

lemma coobVersion_of_key:
  assumes "\<forall>c \<in> set pid. \<not> is_digit c"
      and "list_all is_numeric (js_split CHR ''.'' v)"
  shows "coobVersion (pid @ ''.'' @ v @ ''.coob'') = v"
proof -
  have "filter is_numeric (js_split CHR ''.'' v) = js_split CHR ''.'' v"
    using assms(2) by (simp add: list_all_iff)
  moreover have "\<not> is_numeric ''coob''"
    by (simp add: is_numeric_def is_digit_def)
  ultimately show ?thesis
    using no_digit_not_numeric [OF assms(1), of "CHR ''.''"] js_join_split [of "CHR ''.''" v]
    unfolding coobVersion_def split_key by (simp add: Let_def)
qed

lemma coobName_of_key:
  assumes "\<forall>c \<in> set pid. \<not> is_digit c"
      and "list_all is_numeric (js_split CHR ''.'' v)"
  shows "coobName (pid @ ''.'' @ v @ ''.coob'') = pid"
proof -
  have "butlast (js_split CHR ''.'' (pid @ ''.'' @ v @ ''.coob''))
          = js_split CHR ''.'' pid @ js_split CHR ''.'' v"
    unfolding split_key by (simp add: butlast_append)
  moreover have "js_join ''.'' (js_split CHR ''.'' pid @ js_split CHR ''.'' v) = pid @ ''.'' @ v"
    using js_join_append [OF js_split_not_Nil js_split_not_Nil, of "''.''" "CHR ''.''" pid "CHR ''.''" v]
      js_join_split [of "CHR ''.''"] by simp
  moreover have "v \<noteq> [] \<and> is_digit (hd v)"
  proof -
    obtain q qs where q: "js_split CHR ''.'' v = q # qs"
      using js_split_not_Nil [of "CHR ''.''" v] by (cases "js_split CHR ''.'' v") auto
    then have "is_numeric q" using assms(2) by simp
    then obtain d ds where d: "q = d # ds" "is_digit d"
      by (cases q) (auto simp: is_numeric_def)
    have "js_join ''.'' (q # qs) = v" using js_join_split [of "CHR ''.''" v] q by simp
    then have "\<exists>r. v = d # r" using d by (cases qs) auto
    then show ?thesis using d by auto
  qed
  ultimately show ?thesis
    using coobVersion_of_name [OF assms] js_replace_at_end [OF assms(1), of v]
    unfolding coobName_def Let_def by (simp add: butlast_append)
qed

lemma digits_case: "coobVersion (''lib.2'' @ ''.'' @ ''1.0'' @ ''.coob'') = ''2.1.0''
     \<and> coobName (''lib.2'' @ ''.'' @ ''1.0'' @ ''.coob'') = ''lib''"
  by code_simp

text \<open>
  Claim C10. For a package id without a decimal digit and a version string of 2 to 4
  dot-separated components that are all digits, the extractors give back the parts of the
  key \<open>id.version.coob\<close>: \<open>coobName\<close> returns the id and \<open>coobVersion\<close> the
  version, so the filter of \<open>coobLatestVersion\<close> keeps the key for its own package id
  and for no other. With a digit in the id the round trip can fail: for the id
  \<open>lib.2\<close> and the version \<open>1.0\<close> the extractors return \<open>lib\<close> and
  \<open>2.1.0\<close>.
\<close>

theorem listing_key_roundtrip:
  assumes "\<forall>c \<in> set pid. \<not> is_digit c"
      and "2 \<le> length (js_split CHR ''.'' v)" and "length (js_split CHR ''.'' v) \<le> 4"
      and "list_all is_numeric (js_split CHR ''.'' v)"
  shows "coobName (pid @ ''.'' @ v @ ''.coob'') = pid
       \<and> coobVersion (pid @ ''.'' @ v @ ''.coob'') = v
       \<and> filter (\<lambda>e. coobName e = p) [pid @ ''.'' @ v @ ''.coob'']
           = (if p = pid then [pid @ ''.'' @ v @ ''.coob''] else [])
       \<and> coobVersion (''lib.2'' @ ''.'' @ ''1.0'' @ ''.coob'') \<noteq> ''1.0''
       \<and> coobName (''lib.2'' @ ''.'' @ ''1.0'' @ ''.coob'') \<noteq> ''lib.2''"
proof -
  have n: "coobName (pid @ ''.'' @ v @ ''.coob'') = pid"
    using assms(1,4) by (rule coobName_of_key)
  have v: "coobVersion (pid @ ''.'' @ v @ ''.coob'') = v"
    using assms(1,4) by (rule coobVersion_of_key)
  have f: "filter (\<lambda>e. coobName e = p) [pid @ ''.'' @ v @ ''.coob'']
           = (if p = pid then [pid @ ''.'' @ v @ ''.coob''] else [])"
    using n by auto
  show ?thesis
    using n v f digits_case by simp
qed

theorem listing_key_roundtrip_witness:
  "coobName ''foo.1.2.0.coob'' = ''foo'' \<and> coobVersion ''foo.1.2.0.coob'' = ''1.2.0''"
proof -
  have h1: "\<forall>c \<in> set ''foo''. \<not> is_digit c" by (simp add: is_digit_def)
  have h2: "2 \<le> length (js_split CHR ''.'' ''1.2.0'')" by simp
  have h3: "length (js_split CHR ''.'' ''1.2.0'') \<le> 4" by simp
  have h4: "list_all is_numeric (js_split CHR ''.'' ''1.2.0'')"
    by (simp add: is_numeric_def is_digit_def)
  from listing_key_roundtrip [OF h1 h2 h3 h4] show ?thesis by simp
qed

section \<open>Version comparison is the lexicographic order of the components\<close>

lemma strict_prefix_less:
  fixes xs ys :: "'a::linorder list"
  shows "prefix xs ys \<Longrightarrow> xs \<noteq> ys \<Longrightarrow> xs < ys"
proof (induction xs arbitrary: ys)
  case Nil
  then show ?case by (cases ys) auto
next
  case (Cons x xs)
  then show ?case by (cases ys) auto
qed

lemma compare_loop_lex:
  fixes xs ys :: "'a::linorder list"
  shows "compare_loop xs ys =
           (if prefix xs ys then None else if xs < ys then Some (- 1) else Some 1)"
  by (induction xs ys rule: compare_loop.induct) auto

lemma compare_parts_lex:
  fixes xs ys :: "'a::linorder list"
  shows "compare_parts xs ys = (if xs = ys then Num 0 else if xs < ys then Num (- 1) else Num 1)"
proof (cases "prefix xs ys")
  case pre: True
  show ?thesis
  proof (cases "xs = ys")
    case True
    then show ?thesis by (simp add: compare_parts_def compare_loop_lex)
  next
    case False
    have "xs < ys" using pre False by (rule strict_prefix_less)
    moreover have "length xs \<noteq> length ys"
      using False pre by (auto simp: prefix_def)
    ultimately show ?thesis
      using False pre by (simp add: compare_parts_def compare_loop_lex)
  qed
next
  case False
  then have "xs \<noteq> ys" by auto
  then show ?thesis using False by (simp add: compare_parts_def compare_loop_lex)
qed

lemma spec_component_numeric: "spec_component_ok t \<Longrightarrow> is_numeric t"
  unfolding spec_component_ok_alt is_numeric_def by simp

lemma valid_parts_numeric:
  assumes "IsValidVersion a"
  shows "list_all is_numeric (js_split CHR ''.'' a)"
    and "2 \<le> length (js_split CHR ''.'' a)" and "length (js_split CHR ''.'' a) \<le> 4"
proof -
  let ?ps = "js_split CHR ''.'' a"
  from assms have s: "spec_valid_version a" by (simp add: valid_refines)
  then have len: "length (take 5 ?ps) \<le> 4" and ge: "2 \<le> length (take 5 ?ps)"
    and ok: "\<forall>t \<in> set (take 5 ?ps). spec_component_ok t"
    by (simp_all add: spec_valid_version_def Let_def)
  from len have "length ?ps \<le> 4" by simp
  then have t: "take 5 ?ps = ?ps" by simp
  show "list_all is_numeric ?ps"
    using ok t spec_component_numeric by (simp add: list_all_iff)
  show "2 \<le> length ?ps" using ge t by simp
  show "length ?ps \<le> 4" by fact
qed

lemma isValidPart_default: "isValidPart False = is_numeric"
  by (rule ext) (simp add: isValidPart_def)

lemma versionCompare_valid:
  assumes "IsValidVersion a" and "IsValidVersion b"
  shows "versionCompare a b None = compare_parts (version_components a) (version_components b)"
  using valid_parts_numeric(1) [OF assms(1)] valid_parts_numeric(1) [OF assms(2)]
  by (simp add: versionCompare_def isValidPart_default version_components_def Let_def)

lemma decimal_value_snoc: "decimal_value (s @ [c]) = 10 * decimal_value s + digit_value c"
  by (simp add: decimal_value_def)

lemma digit_value_inj:
  assumes "is_digit c" and "is_digit d" and "digit_value c = digit_value d"
  shows "c = d"
proof -
  have lo: "48 \<le> (of_char c :: nat)" "48 \<le> (of_char d :: nat)"
    using assms(1,2) unfolding is_digit_nat by blast+
  have z: "(of_char CHR ''0'' :: nat) = 48" by simp
  have "(of_char c :: nat) - of_char CHR ''0'' = of_char d - of_char CHR ''0''"
    using assms(3) unfolding digit_value_def .
  with lo have "(of_char c :: nat) = of_char d"
    unfolding z by arith
  then have "char_of (of_char c :: nat) = char_of (of_char d :: nat)" by simp
  then show ?thesis by (simp only: char_of_char)
qed

lemma digit_value_zero:
  assumes "is_digit c" and "digit_value c = 0"
  shows "c = CHR ''0''"
proof -
  have "is_digit CHR ''0''" by (simp add: is_digit_def)
  moreover have "digit_value CHR ''0'' = 0" by (simp add: digit_value_def)
  ultimately show ?thesis using assms digit_value_inj by simp
qed

text \<open>A string of digits that does not start with the digit 0 is the only one of its value.\<close>

lemma leading_digit_positive:
  assumes "list_all is_digit s" and "s \<noteq> []" and "hd s \<noteq> CHR ''0''"
  shows "0 < decimal_value s"
  using assms
proof (induction s rule: rev_induct)
  case Nil
  then show ?case by simp
next
  case (snoc c s)
  show ?case
  proof (cases s)
    case Nil
    then have "is_digit c" "c \<noteq> CHR ''0''" using snoc.prems by simp_all
    then have "digit_value c \<noteq> 0" using digit_value_zero by blast
    then show ?thesis using Nil by (simp add: decimal_value_def)
  next
    case (Cons x xs)
    then have "0 < decimal_value s" using snoc by simp
    then show ?thesis by (simp add: decimal_value_snoc)
  qed
qed

lemma decimal_value_inj:
  assumes "list_all is_digit s" and "s = [] \<or> hd s \<noteq> CHR ''0''"
      and "list_all is_digit t" and "t = [] \<or> hd t \<noteq> CHR ''0''"
      and "decimal_value s = decimal_value t"
  shows "s = t"
  using assms
proof (induction s arbitrary: t rule: rev_induct)
  case Nil
  show ?case
  proof (rule ccontr)
    assume "[] \<noteq> t"
    then have "0 < decimal_value t"
      using Nil.prems leading_digit_positive [of t] by auto
    then show False using Nil.prems by (simp add: decimal_value_def)
  qed
next
  case (snoc c s)
  have pos: "0 < decimal_value (s @ [c])"
    using snoc.prems(1,2) leading_digit_positive [of "s @ [c]"] by auto
  show ?case
  proof (cases t rule: rev_cases)
    case Nil
    then show ?thesis using pos snoc.prems(5) by (simp add: decimal_value_def)
  next
    case (snoc t' d)
    have dc: "is_digit c" "is_digit d" and ds: "list_all is_digit s" "list_all is_digit t'"
      using snoc.prems(1,3) snoc by simp_all
    have eq: "10 * decimal_value s + digit_value c = 10 * decimal_value t' + digit_value d"
      using snoc.prems(5) snoc by (simp add: decimal_value_snoc)
    have "digit_value c \<le> 9" "digit_value d \<le> 9"
      using dc digit_value_le by simp_all
    with eq have v: "decimal_value s = decimal_value t'" and dv: "digit_value c = digit_value d"
      by arith+
    have cs: "s = [] \<or> hd s \<noteq> CHR ''0''"
      using snoc.prems(2) by (cases s) auto
    have ct: "t' = [] \<or> hd t' \<noteq> CHR ''0''"
      using snoc.prems(4) snoc by (cases t') auto
    have "s = t'" using snoc.IH [OF ds(1) cs ds(2) ct v] .
    moreover have "c = d" using dc dv by (rule digit_value_inj)
    ultimately show ?thesis using snoc by simp
  qed
qed

lemma component_value_inj:
  assumes "spec_component_ok s" and "spec_component_ok t" and "Number s = Number t"
  shows "s = t"
proof -
  have zero: "u = ''0''" if "spec_component_ok u" and "decimal_value u = 0" for u
  proof (rule ccontr)
    assume "u \<noteq> ''0''"
    with that(1) have "list_all is_digit u" "u \<noteq> []" "hd u \<noteq> CHR ''0''"
      unfolding spec_component_ok_alt by auto
    then have "0 < decimal_value u" by (rule leading_digit_positive)
    with that(2) show False by simp
  qed
  have z: "decimal_value ''0'' = 0" by (simp add: decimal_value_def digit_value_def)
  have v: "decimal_value s = decimal_value t" using assms(3) by (simp only: Number_def)
  show ?thesis
  proof (cases "s = ''0''")
    case True
    with v z have "decimal_value t = 0" by simp
    with assms(2) have "t = ''0''" by (rule zero)
    with True show ?thesis by simp
  next
    case s0: False
    show ?thesis
    proof (cases "t = ''0''")
      case True
      with v z have "decimal_value s = 0" by simp
      with assms(1) have "s = ''0''" by (rule zero)
      with True show ?thesis by simp
    next
      case t0: False
      have ds: "list_all is_digit s" and hs: "s = [] \<or> hd s \<noteq> CHR ''0''"
        using assms(1) s0 unfolding spec_component_ok_alt by blast+
      have dt: "list_all is_digit t" and ht: "t = [] \<or> hd t \<noteq> CHR ''0''"
        using assms(2) t0 unfolding spec_component_ok_alt by blast+
      from ds hs dt ht v show ?thesis by (rule decimal_value_inj)
    qed
  qed
qed

lemma components_inj:
  assumes "\<forall>p \<in> set ps. spec_component_ok p" and "\<forall>q \<in> set qs. spec_component_ok q"
      and "map Number ps = map Number qs"
  shows "ps = qs"
  using assms
proof (induction ps arbitrary: qs)
  case Nil
  then show ?case by simp
next
  case (Cons p ps)
  then obtain q qs' where q: "qs = q # qs'" by (cases qs) auto
  with Cons.prems have "p = q" using component_value_inj [of p q] by simp
  moreover have "ps = qs'" using Cons q by simp
  ultimately show ?case using q by simp
qed

lemma valid_parts_ok:
  assumes "IsValidVersion a"
  shows "\<forall>p \<in> set (js_split CHR ''.'' a). spec_component_ok p"
proof -
  let ?ps = "js_split CHR ''.'' a"
  from assms have s: "spec_valid_version a" by (simp add: valid_refines)
  then have len: "length (take 5 ?ps) \<le> 4"
    and ok: "\<forall>t \<in> set (take 5 ?ps). spec_component_ok t"
    by (simp_all add: spec_valid_version_def Let_def)
  from len have "length ?ps \<le> 4" by simp
  then have "take 5 ?ps = ?ps" by simp
  with ok show ?thesis by simp
qed

lemma version_components_inj:
  assumes "IsValidVersion a" and "IsValidVersion b"
      and "version_components a = version_components b"
  shows "a = b"
proof -
  have "js_split CHR ''.'' a = js_split CHR ''.'' b"
    using components_inj [OF valid_parts_ok [OF assms(1)] valid_parts_ok [OF assms(2)]] assms(3)
    by (simp add: version_components_def)
  then have "js_join ''.'' (js_split CHR ''.'' a) = js_join ''.'' (js_split CHR ''.'' b)"
    by simp
  then show ?thesis using js_join_split [of "CHR ''.''"] by simp
qed

text \<open>
  Claim C7. On valid version strings \<open>versionCompare\<close> (with no options, as it is
  called) is the lexicographic comparison of the lists of component numbers, where a
  proper prefix is smaller; \<open><\<close> on lists is that order. Hence the result is
  1 exactly when the result for the swapped arguments is -1, a version compares equal to
  itself, the result is never \<open>NaN\<close>, it is 0 only for one and the same version, and
  the order is transitive.
\<close>

theorem versionCompare_total_order:
  assumes "IsValidVersion a" and "IsValidVersion b" and "IsValidVersion c"
  shows "(versionCompare a b None = Num 1 \<longleftrightarrow> versionCompare b a None = Num (- 1))
       \<and> versionCompare a a None = Num 0
       \<and> versionCompare a b None \<in> {Num (- 1), Num 0, Num 1}
       \<and> (versionCompare a b None = Num (- 1) \<longleftrightarrow> version_components a < version_components b)
       \<and> (versionCompare a b None = Num 0 \<longleftrightarrow> version_components a = version_components b)
       \<and> (versionCompare a b None = Num 0 \<longleftrightarrow> a = b)
       \<and> (versionCompare a b None = Num (- 1) \<and> versionCompare b c None = Num (- 1)
            \<longrightarrow> versionCompare a c None = Num (- 1))"
proof -
  have inj: "(version_components a = version_components b) = (a = b)"
    using version_components_inj [OF assms(1) assms(2)] by blast
  show ?thesis
    unfolding versionCompare_valid [OF assms(1) assms(2)] versionCompare_valid [OF assms(2) assms(1)]
      versionCompare_valid [OF assms(1) assms(1)] versionCompare_valid [OF assms(2) assms(3)]
      versionCompare_valid [OF assms(1) assms(3)] compare_parts_lex
    using inj by auto
qed

theorem versionCompare_total_order_witness:
  "IsValidVersion ''1.2.0'' \<and> IsValidVersion ''1.10.0'' \<and> IsValidVersion ''2.0''
   \<and> versionCompare ''1.10.0'' ''1.2.0'' None = Num 1
   \<and> versionCompare ''1.2.0'' ''1.10.0'' None = Num (- 1)
   \<and> versionCompare ''1.2.0'' ''2.0'' None = Num (- 1)"
proof -
  have a: "IsValidVersion ''1.2.0''" by (simp add: version_eval)
  have b: "IsValidVersion ''1.10.0''" by (simp add: version_eval)
  have c: "IsValidVersion ''2.0''" by (simp add: version_eval)
  have ab: "version_components ''1.2.0'' < version_components ''1.10.0''"
    by (simp add: version_components_def Number_def decimal_value_def digit_value_def)
  have bc: "version_components ''1.10.0'' < version_components ''2.0''"
    by (simp add: version_components_def Number_def decimal_value_def digit_value_def)
  from versionCompare_total_order [OF a b c] ab
  have 1: "versionCompare ''1.2.0'' ''1.10.0'' None = Num (- 1)" by simp
  from versionCompare_total_order [OF b c a] bc
  have 2: "versionCompare ''1.10.0'' ''2.0'' None = Num (- 1)" by simp
  from versionCompare_total_order [OF a b c] 1 2
  have 3: "versionCompare ''1.2.0'' ''2.0'' None = Num (- 1)" by simp
  from versionCompare_total_order [OF b a c] 1
  have 4: "versionCompare ''1.10.0'' ''1.2.0'' None = Num 1" by simp
  show ?thesis using a b c 1 3 4 by simp
qed

section \<open>The latest version of a package is the greatest one listed\<close>

lemma set_insert_sorted: "set (insert_sorted cmp x ys) = insert x (set ys)"
  by (induction ys) auto

lemma set_insertion_fold:
  "set (foldl (\<lambda>acc x. insert_sorted cmp x acc) acc xs) = set acc \<union> set xs"
  by (induction xs arbitrary: acc) (auto simp: set_insert_sorted)

lemma set_js_sort: "set (js_sort cmp xs) = set xs"
  by (simp add: js_sort_def set_insertion_fold)

lemma sorted_insert_sorted:
  fixes key :: "'a \<Rightarrow> 'b::linorder"
  assumes "\<And>y. y \<in> set ys \<Longrightarrow> comparator_negative (cmp x y) = (key x < key y)"
      and "sorted (map key ys)"
  shows "sorted (map key (insert_sorted cmp x ys))"
  using assms
proof (induction ys)
  case Nil
  show ?case by simp
next
  case (Cons y ys)
  show ?case
  proof (cases "comparator_negative (cmp x y)")
    case True
    then have "key x < key y" using Cons.prems(1) by simp
    then have "\<forall>z \<in> set (y # ys). key x \<le> key z"
      using Cons.prems(2) by fastforce
    then show ?thesis using True Cons.prems(2) by simp
  next
    case False
    then have le: "key y \<le> key x" using Cons.prems(1) by simp
    have "sorted (map key (insert_sorted cmp x ys))"
      using Cons.IH Cons.prems by simp
    moreover have "\<forall>z \<in> set (insert_sorted cmp x ys). key y \<le> key z"
      using le Cons.prems(2) by (simp add: set_insert_sorted)
    ultimately show ?thesis using False by simp
  qed
qed

lemma sorted_insertion_fold:
  fixes key :: "'a \<Rightarrow> 'b::linorder"
  assumes "\<And>x y. x \<in> set xs \<Longrightarrow> y \<in> set acc \<union> set xs \<Longrightarrow>
                 comparator_negative (cmp x y) = (key x < key y)"
      and "sorted (map key acc)"
  shows "sorted (map key (foldl (\<lambda>acc x. insert_sorted cmp x acc) acc xs))"
  using assms
proof (induction xs arbitrary: acc)
  case Nil
  then show ?case by simp
next
  case (Cons x xs)
  have s: "sorted (map key (insert_sorted cmp x acc))"
    by (rule sorted_insert_sorted) (use Cons.prems in auto)
  have "sorted (map key (foldl (\<lambda>acc x. insert_sorted cmp x acc) (insert_sorted cmp x acc) xs))"
  proof (rule Cons.IH [OF _ s])
    fix a b
    assume "a \<in> set xs" and "b \<in> set (insert_sorted cmp x acc) \<union> set xs"
    then show "comparator_negative (cmp a b) = (key a < key b)"
      using Cons.prems(1) [of a b] by (auto simp: set_insert_sorted)
  qed
  then show ?case by simp
qed

lemma sorted_js_sort:
  fixes key :: "'a \<Rightarrow> 'b::linorder"
  assumes "\<And>x y. x \<in> set xs \<Longrightarrow> y \<in> set xs \<Longrightarrow>
                 comparator_negative (cmp x y) = (key x < key y)"
  shows "sorted (map key (js_sort cmp xs))"
  unfolding js_sort_def
  by (rule sorted_insertion_fold) (use assms in auto)

lemma sorted_last_greatest:
  fixes key :: "'a \<Rightarrow> 'b::linorder"
  assumes "sorted (map key zs)" and "z \<in> set zs"
  shows "key z \<le> key (last zs)"
  using assms
proof (induction zs)
  case Nil
  then show ?case by simp
next
  case (Cons a zs)
  show ?case
  proof (cases "zs = []")
    case True
    then show ?thesis using Cons.prems by simp
  next
    case False
    then have l: "last zs \<in> set zs" by simp
    show ?thesis
    proof (cases "z = a")
      case True
      then show ?thesis using Cons.prems(1) False l by auto
    next
      case ne: False
      then show ?thesis using Cons False by auto
    qed
  qed
qed

text \<open>The versions of the keys of a package, as the selection sorts them.\<close>

lemma coobLatestVersion_sorted:
  "coobLatestVersion name body =
     (let versions = js_sort (\<lambda>a b. versionCompare a b None)
                       (map coobVersion (filter (\<lambda>e. coobName e = name) body))
      in if versions = [] then None else Some (last versions))"
  by (simp add: coobLatestVersion_def Let_def)

lemma valid_comparator_negative:
  assumes "IsValidVersion a" and "IsValidVersion b"
  shows "comparator_negative (versionCompare a b None) = (version_components a < version_components b)"
  unfolding versionCompare_valid [OF assms] compare_parts_lex by auto

lemma coobLatestVersion_greatest:
  assumes valid: "\<And>key. key \<in> set body \<Longrightarrow> coobName key = name \<Longrightarrow> IsValidVersion (coobVersion key)"
  shows "(coobLatestVersion name body = Some v) =
           ((\<exists>key \<in> set body. coobName key = name \<and> coobVersion key = v)
            \<and> (\<forall>key \<in> set body. coobName key = name \<longrightarrow>
                   version_components (coobVersion key) \<le> version_components v))"
proof -
  let ?xs = "map coobVersion (filter (\<lambda>e. coobName e = name) body)"
  let ?zs = "js_sort (\<lambda>a b. versionCompare a b None) ?xs"
  have mem: "set ?zs = coobVersion ` {key \<in> set body. coobName key = name}"
    by (auto simp: set_js_sort)
  have ok: "IsValidVersion x" if "x \<in> set ?xs" for x
    using that valid by auto
  have srt: "sorted (map version_components ?zs)"
    by (rule sorted_js_sort) (use ok valid_comparator_negative in blast)
  have res: "coobLatestVersion name body = (if ?zs = [] then None else Some (last ?zs))"
    by (simp add: coobLatestVersion_sorted Let_def)
  show ?thesis
  proof
    assume "coobLatestVersion name body = Some v"
    then have ne: "?zs \<noteq> []" and v: "v = last ?zs"
      using res by (auto split: if_splits)
    have "v \<in> set ?zs" using ne v by simp
    then have a: "\<exists>key \<in> set body. coobName key = name \<and> coobVersion key = v"
      unfolding mem by auto
    have b: "version_components (coobVersion key) \<le> version_components v"
      if "key \<in> set body" and "coobName key = name" for key
    proof -
      have "coobVersion key \<in> set ?zs" unfolding mem using that by auto
      from sorted_last_greatest [OF srt this] show ?thesis using v by simp
    qed
    show "(\<exists>key \<in> set body. coobName key = name \<and> coobVersion key = v)
            \<and> (\<forall>key \<in> set body. coobName key = name \<longrightarrow>
                   version_components (coobVersion key) \<le> version_components v)"
      using a b by blast
  next
    assume r: "(\<exists>key \<in> set body. coobName key = name \<and> coobVersion key = v)
            \<and> (\<forall>key \<in> set body. coobName key = name \<longrightarrow>
                   version_components (coobVersion key) \<le> version_components v)"
    then have vin: "v \<in> set ?zs" unfolding mem by auto
    then have ne: "?zs \<noteq> []" by auto
    then have lin: "last ?zs \<in> set ?zs" by simp
    then obtain key where k: "key \<in> set body" "coobName key = name" "coobVersion key = last ?zs"
      unfolding mem by auto
    have "version_components (last ?zs) \<le> version_components v"
      using r k by metis
    moreover have "version_components v \<le> version_components (last ?zs)"
      by (rule sorted_last_greatest [OF srt vin])
    ultimately have "version_components v = version_components (last ?zs)" by simp
    moreover have "IsValidVersion v" using vin ok by (simp add: set_js_sort)
    moreover have "IsValidVersion (last ?zs)" using lin ok by (simp add: set_js_sort)
    ultimately have "v = last ?zs" by (rule version_components_inj [rotated 2])
    then show "coobLatestVersion name body = Some v" using res ne by simp
  qed
qed

lemma coobLatestVersion_None:
  "(coobLatestVersion name body = None) = (filter (\<lambda>e. coobName e = name) body = [])"
proof -
  have "(js_sort (\<lambda>a b. versionCompare a b None)
           (map coobVersion (filter (\<lambda>e. coobName e = name) body)) = [])
        = (filter (\<lambda>e. coobName e = name) body = [])"
    using set_js_sort [of "\<lambda>a b. versionCompare a b None"
                          "map coobVersion (filter (\<lambda>e. coobName e = name) body)"]
    by (metis map_is_Nil_conv set_empty)
  then show ?thesis by (simp add: coobLatestVersion_sorted Let_def)
qed

lemma valid_not_greater:
  assumes "IsValidVersion a" and "IsValidVersion b"
  shows "(versionCompare a b None \<noteq> Num 1) = (version_components a \<le> version_components b)"
  unfolding versionCompare_valid [OF assms] compare_parts_lex by auto

lemma foo_listing:
  "coobName ''foo.1.2.0.coob'' = ''foo''" "coobVersion ''foo.1.2.0.coob'' = ''1.2.0''"
  "coobName ''foo.1.3.0.coob'' = ''foo''" "coobVersion ''foo.1.3.0.coob'' = ''1.3.0''"
  "coobName ''bar.9.9.9.coob'' = ''bar''" "coobVersion ''bar.9.9.9.coob'' = ''9.9.9''"
  "coobName ''foo.1.10.0.coob'' = ''foo''" "coobVersion ''foo.1.10.0.coob'' = ''1.10.0''"
  by code_simp+

text \<open>
  Claim C2, as stated, fails on \<open>coobLatestVersion\<close>: the function takes the package
  name and the listing and nothing else, so no ceiling can be supplied to it, and over
  the listing of the claim it returns the version 1.3.0, which is not below the ceiling
  1.3.0 of the claim, and not the version 1.2.0.
\<close>

theorem coobLatestVersion_ceiling_counterexample:
  "coobLatestVersion ''foo'' [''foo.1.2.0.coob'', ''foo.1.3.0.coob'', ''bar.9.9.9.coob'']
     = Some ''1.3.0''
   \<and> coobLatestVersion ''foo'' [''foo.1.2.0.coob'', ''foo.1.3.0.coob'', ''bar.9.9.9.coob'']
     \<noteq> Some ''1.2.0''
   \<and> versionCompare ''1.3.0'' ''1.3.0'' None = Num 0
   \<and> used_version latest_opts [''foo.1.2.0.coob'', ''foo.1.3.0.coob'', ''bar.9.9.9.coob'']
     = Some ''1.3.0''"
proof -
  have a: "coobLatestVersion ''foo'' [''foo.1.2.0.coob'', ''foo.1.3.0.coob'', ''bar.9.9.9.coob'']
             = Some ''1.3.0''"
    by code_simp
  have b: "versionCompare ''1.3.0'' ''1.3.0'' None = Num 0"
    by code_simp
  show ?thesis
    using a b by (simp add: used_version_def latest_opts_def)
qed

text \<open>
  Claim C2, amended. The selection of restore.js takes no ceiling and excludes no entry by
  its version: over a listing in which every key of the package carries a valid version,
  \<open>coobLatestVersion\<close> returns the greatest version among all keys of the package, in
  the order of \<open>versionCompare\<close>, and \<^verbatim>\<open>undefined\<close> exactly when the listing has
  no key of the package. Over the listing of the claim, for the package \<open>foo\<close>, the
  result is 1.3.0.
\<close>

theorem coobLatestVersion_takes_greatest:
  assumes "\<forall>key \<in> set body. coobName key = name \<longrightarrow> IsValidVersion (coobVersion key)"
  shows "(coobLatestVersion name body = None \<longleftrightarrow> (\<forall>key \<in> set body. coobName key \<noteq> name))
       \<and> (\<forall>v. coobLatestVersion name body = Some v \<longleftrightarrow>
             (\<exists>key \<in> set body. coobName key = name \<and> coobVersion key = v)
             \<and> (\<forall>key \<in> set body. coobName key = name \<longrightarrow>
                    versionCompare (coobVersion key) v None \<noteq> Num 1))
       \<and> coobLatestVersion ''foo'' [''foo.1.2.0.coob'', ''foo.1.3.0.coob'', ''bar.9.9.9.coob'']
           = Some ''1.3.0''"
proof -
  have valid: "IsValidVersion (coobVersion key)" if "key \<in> set body" and "coobName key = name" for key
    using assms that by blast
  have none: "coobLatestVersion name body = None \<longleftrightarrow> (\<forall>key \<in> set body. coobName key \<noteq> name)"
    unfolding coobLatestVersion_None by (simp add: filter_empty_conv)
  have some: "coobLatestVersion name body = Some v \<longleftrightarrow>
             (\<exists>key \<in> set body. coobName key = name \<and> coobVersion key = v)
             \<and> (\<forall>key \<in> set body. coobName key = name \<longrightarrow>
                    versionCompare (coobVersion key) v None \<noteq> Num 1)" for v
  proof (cases "\<exists>key \<in> set body. coobName key = name \<and> coobVersion key = v")
    case True
    then have v: "IsValidVersion v" using valid by blast
    have "(\<forall>key \<in> set body. coobName key = name \<longrightarrow>
              versionCompare (coobVersion key) v None \<noteq> Num 1)
          = (\<forall>key \<in> set body. coobName key = name \<longrightarrow>
              version_components (coobVersion key) \<le> version_components v)"
      using valid_not_greater [OF valid v] by blast
    then show ?thesis
      using coobLatestVersion_greatest [of body name v] valid by blast
  next
    case False
    then show ?thesis
      using coobLatestVersion_greatest [of body name v] valid by blast
  qed
  have ex: "coobLatestVersion ''foo'' [''foo.1.2.0.coob'', ''foo.1.3.0.coob'', ''bar.9.9.9.coob'']
              = Some ''1.3.0''"
    by code_simp
  show ?thesis using none some ex by blast
qed

theorem coobLatestVersion_takes_greatest_witness:
  "IsValidVersion ''1.10.0'' \<and> IsValidVersion ''1.2.0''
   \<and> versionCompare ''1.2.0'' ''1.10.0'' None = Num (- 1)
   \<and> coobLatestVersion ''foo'' [''foo.1.10.0.coob'', ''bar.9.9.9.coob'', ''foo.1.2.0.coob'']
       = Some ''1.10.0''
   \<and> coobLatestVersion ''baz'' [''foo.1.10.0.coob'', ''bar.9.9.9.coob'', ''foo.1.2.0.coob'']
       = None"
proof -
  let ?body = "[''foo.1.10.0.coob'', ''bar.9.9.9.coob'', ''foo.1.2.0.coob'']"
  have a: "IsValidVersion ''1.10.0''" by (simp add: version_eval)
  have b: "IsValidVersion ''1.2.0''" by (simp add: version_eval)
  have c: "versionCompare ''1.2.0'' ''1.10.0'' None = Num (- 1)" by code_simp
  have d: "versionCompare ''1.10.0'' ''1.10.0'' None = Num 0" by code_simp
  have hyp: "\<forall>key \<in> set ?body. coobName key = ''foo'' \<longrightarrow> IsValidVersion (coobVersion key)"
    using a b by (simp add: foo_listing)
  have hyp': "\<forall>key \<in> set ?body. coobName key = ''baz'' \<longrightarrow> IsValidVersion (coobVersion key)"
    by (simp add: foo_listing)
  have "(\<exists>key \<in> set ?body. coobName key = ''foo'' \<and> coobVersion key = ''1.10.0'')
        \<and> (\<forall>key \<in> set ?body. coobName key = ''foo'' \<longrightarrow>
               versionCompare (coobVersion key) ''1.10.0'' None \<noteq> Num 1)"
    using c d by (simp add: foo_listing)
  with coobLatestVersion_takes_greatest [OF hyp]
  have e: "coobLatestVersion ''foo'' ?body = Some ''1.10.0''" by blast
  have "\<forall>key \<in> set ?body. coobName key \<noteq> ''baz''"
    by (simp add: foo_listing)
  with coobLatestVersion_takes_greatest [OF hyp']
  have f: "coobLatestVersion ''baz'' ?body = None" by blast
  show ?thesis using a b c e f by simp
qed

section \<open>Paths of package folders\<close>

lemma js_split_no_separator: "c \<notin> set s \<Longrightarrow> js_split c s = [s]"
  by (induction s) auto

lemma js_split_parts_free: "p \<in> set (js_split c s) \<Longrightarrow> c \<notin> set p"
proof (induction s arbitrary: p)
  case Nil
  then show ?case by simp
next
  case (Cons x s)
  obtain q qs where q: "js_split c s = q # qs"
    using js_split_not_Nil [of c s] by (cases "js_split c s") auto
  show ?case
  proof (cases "x = c")
    case True
    with Cons show ?thesis by auto
  next
    case False
    with Cons.prems q have "p = x # q \<or> p \<in> set qs" by auto
    then show ?thesis
      using Cons.IH [of q] Cons.IH [of p] q False by auto
  qed
qed

lemma js_split_join:
  "ps \<noteq> [] \<Longrightarrow> \<forall>p \<in> set ps. c \<notin> set p \<Longrightarrow> js_split c (js_join [c] ps) = ps"
proof (induction "[c]" ps rule: js_join.induct)
  case 1
  then show ?case by simp
next
  case (2 p)
  then show ?case by (simp add: js_split_no_separator)
next
  case (3 p q ps)
  have "js_split c (p @ c # js_join [c] (q # ps)) = js_split c p @ js_split c (js_join [c] (q # ps))"
    by (rule js_split_append)
  then show ?case using 3 by (simp add: js_split_no_separator)
qed

lemma js_join_hd:
  "ps \<noteq> [] \<Longrightarrow> hd ps \<noteq> [] \<Longrightarrow> js_join sep ps \<noteq> [] \<and> hd (js_join sep ps) = hd (hd ps)"
  by (induction sep ps rule: js_join.induct) auto

lemma normalizeString_append:
  "normalizeString allow res (xs @ ys) = normalizeString allow (normalizeString allow res xs) ys"
  by (induction xs arbitrary: res) auto

lemma normalizeString_segment: "path_segment s \<Longrightarrow> normalizeString allow res [s] = res @ [s]"
  by (simp add: path_segment_def)

lemma normalizeString_kept:
  "x \<in> set (normalizeString allow res xs) \<Longrightarrow>
     x \<in> set res \<or> (x \<in> set xs \<and> x \<noteq> [] \<and> x \<noteq> ''.'')"
proof (induction xs arbitrary: res)
  case Nil
  then show ?case by simp
next
  case (Cons seg rest)
  have bl: "y \<in> set (butlast res) \<Longrightarrow> y \<in> set res" for y
    by (rule in_set_butlastD)
  show ?case
  proof (cases "seg = [] \<or> seg = ''.''")
    case True
    then show ?thesis using Cons.IH [of res] Cons.prems by auto
  next
    case False
    show ?thesis
    proof (cases "seg = ''..''")
      case dd: True
      show ?thesis
      proof (cases "res \<noteq> [] \<and> last res \<noteq> ''..''")
        case True
        then have "x \<in> set (normalizeString allow (butlast res) rest)"
          using Cons.prems dd by simp
        from Cons.IH [OF this] show ?thesis using bl by auto
      next
        case nopop: False
        show ?thesis
        proof (cases allow)
          case True
          then have "x \<in> set (normalizeString allow (res @ [''..'']) rest)"
            using Cons.prems dd nopop by auto
          from Cons.IH [OF this] show ?thesis using dd by auto
        next
          case False
          then have "x \<in> set (normalizeString allow res rest)"
            using Cons.prems dd nopop by auto
          from Cons.IH [OF this] show ?thesis by auto
        qed
      qed
    next
      case nd: False
      then have "x \<in> set (normalizeString allow (res @ [seg]) rest)"
        using Cons.prems False by simp
      from Cons.IH [OF this] show ?thesis using False by auto
    qed
  qed
qed

text \<open>
  The node of the folder of packages: the root and the normalised segments of its path.
  A name that is one path segment, joined to the folder of packages, names the node one
  step below it.
\<close>

lemma path_join_segment:
  assumes s: "path_segment s"
  shows "node_of (path_join coobsDir s) =
           (coobsDir \<noteq> [] \<and> hd coobsDir = CHR ''/'',
            normalizeString (\<not> (coobsDir \<noteq> [] \<and> hd coobsDir = CHR ''/'')) []
              (js_split CHR ''/'' coobsDir) @ [s])"
proof -
  let ?abs = "coobsDir \<noteq> [] \<and> hd coobsDir = CHR ''/''"
  let ?base = "normalizeString (\<not> ?abs) [] (js_split CHR ''/'' coobsDir)"
  have sne: "s \<noteq> []" and sdot: "s \<noteq> ''.''" and free: "CHR ''/'' \<notin> set s"
    using s by (simp_all add: path_segment_def)
  have hs: "hd s \<noteq> CHR ''/''" using sne free by (cases s) auto
  have ls: "last s \<noteq> CHR ''/''" using sne free last_in_set [of s] by metis
  have base: "x \<noteq> [] \<and> x \<noteq> ''.'' \<and> CHR ''/'' \<notin> set x" if "x \<in> set ?base" for x
    using normalizeString_kept [OF that] js_split_parts_free [of x "CHR ''/''" coobsDir] by auto
  have segs: "\<forall>x \<in> set (?base @ [s]). CHR ''/'' \<notin> set x"
    using base free by auto
  have keep: "filter (\<lambda>seg. seg \<noteq> [] \<and> seg \<noteq> ''.'') (?base @ [s]) = ?base @ [s]"
    using base sne sdot by (simp add: filter_id_conv)
  have split: "js_split CHR ''/'' (js_join ''/'' (?base @ [s])) = ?base @ [s]"
    by (rule js_split_join) (use segs in auto)
  have h: "hd (?base @ [s]) \<noteq> []" "hd (hd (?base @ [s])) \<noteq> CHR ''/''"
  proof -
    have "hd (?base @ [s]) \<in> set (?base @ [s])" by (rule hd_in_set) simp
    then have a: "hd (?base @ [s]) \<noteq> []" and b: "CHR ''/'' \<notin> set (hd (?base @ [s]))"
      using base sne free by auto
    show "hd (?base @ [s]) \<noteq> []" by (rule a)
    show "hd (hd (?base @ [s])) \<noteq> CHR ''/''" using a b by (cases "hd (?base @ [s])") auto
  qed
  have jh: "js_join ''/'' (?base @ [s]) \<noteq> []"
           "hd (js_join ''/'' (?base @ [s])) \<noteq> CHR ''/''"
    using js_join_hd [of "?base @ [s]" "''/''"] h by auto
  have joined: "path_join coobsDir s =
                  (if ?abs then ''/'' else []) @ js_join ''/'' (?base @ [s])"
  proof (cases "coobsDir = []")
    case True
    then show ?thesis
      using sne hs ls free
      by (simp add: path_join_def path_join_list_def path_normalize_def Let_def
            js_split_no_separator normalizeString_segment [OF s])
  next
    case False
    have sp: "js_split CHR ''/'' (coobsDir @ CHR ''/'' # s) = js_split CHR ''/'' coobsDir @ [s]"
      using js_split_append [of "CHR ''/''" coobsDir s] free by (simp add: js_split_no_separator)
    have n: "normalizeString (\<not> ?abs) [] (js_split CHR ''/'' coobsDir @ [s]) = ?base @ [s]"
      by (simp only: normalizeString_append normalizeString_segment [OF s])
    show ?thesis
      using False sne ls sp n
      by (simp add: path_join_def path_join_list_def path_normalize_def Let_def)
  qed
  show ?thesis
  proof (cases ?abs)
    case True
    then show ?thesis
      unfolding joined using split keep by (simp add: node_of_def)
  next
    case False
    then show ?thesis
      unfolding joined using split keep jh by (simp add: node_of_def)
  qed
qed

section \<open>The events and the folders of a run\<close>

lemma trace_emit [simp]: "trace (emit e st) = trace st @ [e]"
  by (simp add: emit_def)

lemma nodes_emit [simp]: "nodes (emit e st) = nodes st"
  by (simp add: emit_def)

lemma trace_ensureDirSync [simp]: "trace (ensureDirSync folder st) = trace st @ [EnsureDir folder]"
  by (simp add: ensureDirSync_def Let_def)

lemma trace_emptyDirSync [simp]: "trace (emptyDirSync folder st) = trace st @ [EmptyDir folder]"
  by (simp add: emptyDirSync_def Let_def)

lemma trace_createWriteStream [simp]: "trace (createWriteStream filename st) = trace st"
  by (simp add: createWriteStream_def)

lemma trace_unlinkSync [simp]: "trace (unlinkSync filename st) = trace st @ [Unlink filename]"
  by (simp add: unlinkSync_def Let_def)

lemma nodes_ensureDirSync [simp]:
  "nodes (ensureDirSync folder st) = nodes st \<union> folder_chain (node_of folder)"
  by (simp add: ensureDirSync_def Let_def)

lemma nodes_emptyDirSync [simp]:
  "nodes (emptyDirSync folder st) =
     {p \<in> nodes st. \<not> below (node_of folder) p} \<union> folder_chain (node_of folder)"
  by (simp add: emptyDirSync_def Let_def)

lemma nodes_createWriteStream [simp]:
  "nodes (createWriteStream filename st) = insert (node_of filename) (nodes st)"
  by (simp add: createWriteStream_def)

lemma nodes_unlinkSync [simp]:
  "nodes (unlinkSync filename st) = nodes st - {node_of filename}"
  by (simp add: unlinkSync_def Let_def)

lemma restoreCoob_outcome:
  "fst (restoreCoob w coobsDir name ver st) =
     (case http_archive w (coobUrl name ver) of
        ArchiveError \<Rightarrow> Crashed
      | ArchiveBody payload \<Rightarrow> if fst (devtool_unzip w payload) then Fulfilled else Pending)"
  by (simp add: restoreCoob_def Let_def split: archive_response.splits)

lemma restoreCoob_Fulfilled:
  "(fst (restoreCoob w coobsDir name ver st) = Fulfilled) = fetch_ok w (coobUrl name ver)"
  by (simp add: restoreCoob_outcome fetch_ok_def split: archive_response.splits)

lemma restoreCoob_trace:
  "trace (snd (restoreCoob w coobsDir name ver st)) = trace st @ coob_events w coobsDir name ver"
  by (simp add: restoreCoob_def coob_events_def Let_def split: archive_response.splits)

text \<open>
  The files and folders after a call: what was below the destination folder is gone, the
  folder and the folders that lead to it are there, the archive file is there unless the
  call has deleted it, and the entries the unzip tool wrote are there.
\<close>

lemma restoreCoob_nodes:
  "nodes (snd (restoreCoob w coobsDir name ver st)) =
     (case http_archive w (coobUrl name ver) of
        ArchiveError \<Rightarrow>
          insert (node_of (coobDest coobsDir name ver))
            ({p \<in> nodes st. \<not> below (node_of (coobDestFolder coobsDir name)) p}
             \<union> folder_chain (node_of (coobDestFolder coobsDir name)))
      | ArchiveBody payload \<Rightarrow>
          (insert (node_of (coobDest coobsDir name ver))
             ({p \<in> nodes st. \<not> below (node_of (coobDestFolder coobsDir name)) p}
              \<union> folder_chain (node_of (coobDestFolder coobsDir name)))
           \<union> entry_nodes (coobDestFolder coobsDir name) (snd (devtool_unzip w payload)))
          - (if fst (devtool_unzip w payload) then {node_of (coobDest coobsDir name ver)} else {}))"
  by (auto simp: restoreCoob_def Let_def split: archive_response.splits)

lemma folder_chain_not_below: "p \<in> folder_chain folder \<Longrightarrow> \<not> below folder p"
proof -
  assume "p \<in> folder_chain folder"
  then have "snd p \<in> set (prefixes (snd folder))"
    by (auto simp: folder_chain_def dest: list.set_sel(2) [rotated])
  then have "prefix (snd p) (snd folder)" by (simp add: in_set_prefixes)
  then show ?thesis by (auto simp: below_def)
qed

lemma entry_nodes_below: "p \<in> entry_nodes folder entries \<Longrightarrow> below (node_of folder) p"
  by (auto simp: entry_nodes_def below_def path_segment_def strict_prefix_def)

lemma entry_nodes_simps:
  "entry_nodes folder {} = {}"
  "entry_nodes folder (insert entry entries) =
     (if path_segment entry
      then insert (fst (node_of folder), snd (node_of folder) @ [entry]) (entry_nodes folder entries)
      else entry_nodes folder entries)"
  by (auto simp: entry_nodes_def)

text \<open>
  Two names that are path segments give, below the folder of packages, two nodes side by
  side: neither is below the other, and neither is at or below the other unless the names
  are the same.
\<close>

lemma sibling_not_below:
  assumes "s \<noteq> t"
  shows "\<not> below (root, base @ [s]) (root', base @ t # rest)"
  using assms by (auto simp: below_def strict_prefix_def prefix_def)

lemma sibling_not_in_chain:
  assumes "s \<noteq> t"
  shows "(root', base @ t # rest) \<notin> folder_chain (root, base @ [s])"
proof
  assume "(root', base @ t # rest) \<in> folder_chain (root, base @ [s])"
  then have "base @ t # rest \<in> set (prefixes (base @ [s]))"
    by (auto simp: folder_chain_def dest: list.set_sel(2) [rotated])
  then have "prefix (base @ t # rest) (base @ [s])" by (simp add: in_set_prefixes)
  then show False using assms by (auto simp: prefix_def)
qed

lemma sibling_not_entry:
  assumes "s \<noteq> t" and "node_of folder = (root, base @ [s])"
  shows "(root', base @ t # rest) \<notin> entry_nodes folder entries"
  using assms by (auto simp: entry_nodes_def)

lemma contents_after_call:
  assumes "\<not> below F Z" and "\<And>p. p \<in> C \<Longrightarrow> \<not> below F p"
      and "\<And>p. p \<in> E \<Longrightarrow> below F p"
  shows "{p \<in> insert Z ({p \<in> N. \<not> below F p} \<union> C). below F p} = {}"
    and "{p \<in> (insert Z ({p \<in> N. \<not> below F p} \<union> C) \<union> E) - D. below F p} = E - D"
  using assms by auto

lemma restore_references_trace:
  "trace (snd (restore_references w coobsDir references st)) =
     trace st @
     concat (map (\<lambda>coob. coob_events w coobsDir (ref_id coob) (Some (ref_version coob)))
               (up_to_first_failure w references))"
proof (induction references arbitrary: st)
  case Nil
  show ?case by (simp add: up_to_first_failure_def)
next
  case (Cons coob references)
  obtain out st' where r: "restoreCoob w coobsDir (ref_id coob) (Some (ref_version coob)) st = (out, st')"
    by (cases "restoreCoob w coobsDir (ref_id coob) (Some (ref_version coob)) st")
  have tr: "trace st' = trace st @ coob_events w coobsDir (ref_id coob) (Some (ref_version coob))"
    using restoreCoob_trace [of w coobsDir "ref_id coob" "Some (ref_version coob)" st] r by simp
  have ok: "(out = Fulfilled) = fetch_ok w (reference_url coob)"
    using restoreCoob_Fulfilled [of w coobsDir "ref_id coob" "Some (ref_version coob)" st] r
    by (simp add: reference_url_def)
  show ?case
  proof (cases "out = Fulfilled")
    case True
    then show ?thesis
      using r tr ok Cons.IH [of st'] by (simp add: up_to_first_failure_def)
  next
    case False
    then have "restore_references w coobsDir (coob # references) st = (out, st')"
      using r by (cases out) simp_all
    then show ?thesis
      using tr ok False by (simp add: up_to_first_failure_def)
  qed
qed

lemma restore_references_outcome:
  "(fst (restore_references w coobsDir references st) = Fulfilled)
     = list_all (\<lambda>coob. fetch_ok w (reference_url coob)) references"
proof (induction references arbitrary: st)
  case Nil
  show ?case by simp
next
  case (Cons coob references)
  obtain out st' where r: "restoreCoob w coobsDir (ref_id coob) (Some (ref_version coob)) st = (out, st')"
    by (cases "restoreCoob w coobsDir (ref_id coob) (Some (ref_version coob)) st")
  have ok: "(out = Fulfilled) = fetch_ok w (reference_url coob)"
    using restoreCoob_Fulfilled [of w coobsDir "ref_id coob" "Some (ref_version coob)" st] r
    by (simp add: reference_url_def)
  show ?case
  proof (cases "out = Fulfilled")
    case True
    then show ?thesis using r ok Cons.IH [of st'] by simp
  next
    case False
    then have "restore_references w coobsDir (coob # references) st = (out, st')"
      using r by (cases out) simp_all
    then show ?thesis using ok False by simp
  qed
qed

lemma restore_trace:
  "trace (snd (restore w opts st)) = trace st @ restore_events w opts"
proof (cases "http_page w svcUrl")
  case PageError
  then show ?thesis by (simp add: restore_def restore_events_def Let_def)
next
  case (PageStatus statusCode body)
  show ?thesis
  proof (cases "statusCode = 200")
    case False
    then show ?thesis using PageStatus by (simp add: restore_def restore_events_def Let_def)
  next
    case True
    let ?dir = "opt_coobsDir opts" and ?name = "opt_coobName opts"
    let ?ver = "used_version opts body"
    let ?st1 = "emit (GetPage svcUrl) st"
    obtain out st2 where r: "restoreCoob w ?dir ?name ?ver ?st1 = (out, st2)"
      by (cases "restoreCoob w ?dir ?name ?ver ?st1")
    have tr: "trace st2 = trace st @ GetPage svcUrl # coob_events w ?dir ?name ?ver"
      using restoreCoob_trace [of w ?dir ?name ?ver ?st1] r by simp
    have ok: "(out = Fulfilled) = fetch_ok w (coobUrl ?name ?ver)"
      using restoreCoob_Fulfilled [of w ?dir ?name ?ver ?st1] r by simp
    have unfold: "restore w opts st =
        (case (out, st2) of
           (Fulfilled, st) \<Rightarrow>
             (let propsFile = coobPropsFile ?dir ?name;
                  st = emit (ReadProps propsFile) st
              in case devtool_CoobProps w propsFile of
                   PropsFailed err \<Rightarrow> (Rejected err, st)
                 | Props references \<Rightarrow>
                     (case restore_references w ?dir references st of
                        (Fulfilled, st) \<Rightarrow> (Fulfilled, emit (Log ''All coobs are restored.'') st)
                      | (other, st) \<Rightarrow> (other, st)))
         | (other, st) \<Rightarrow> (other, st))"
      using PageStatus True r by (simp add: restore_def used_version_def Let_def)
    show ?thesis
    proof (cases "out = Fulfilled")
      case False
      then have "restore w opts st = (out, st2)"
        unfolding unfold by (cases out) simp_all
      then show ?thesis
        using tr ok False PageStatus True by (simp add: restore_events_def)
    next
      case out: True
      let ?file = "coobPropsFile ?dir ?name"
      let ?st3 = "emit (ReadProps ?file) st2"
      show ?thesis
      proof (cases "devtool_CoobProps w ?file")
        case (PropsFailed err)
        then have "restore w opts st = (Rejected err, ?st3)"
          unfolding unfold using out by (simp add: Let_def)
        then show ?thesis
          using tr ok out PageStatus True PropsFailed by (simp add: restore_events_def)
      next
        case (Props references)
        obtain out4 st4 where rr: "restore_references w ?dir references ?st3 = (out4, st4)"
          by (cases "restore_references w ?dir references ?st3")
        have tr4: "trace st4 = trace ?st3 @
            concat (map (\<lambda>coob. coob_events w ?dir (ref_id coob) (Some (ref_version coob)))
                      (up_to_first_failure w references))"
          using restore_references_trace [of w ?dir references ?st3] rr by simp
        have ok4: "(out4 = Fulfilled) = list_all (\<lambda>coob. fetch_ok w (reference_url coob)) references"
          using restore_references_outcome [of w ?dir references ?st3] rr by simp
        have res: "restore w opts st =
            (if out4 = Fulfilled then (Fulfilled, emit (Log ''All coobs are restored.'') st4)
             else (out4, st4))"
          unfolding unfold using out Props rr by (cases out4) (simp_all add: Let_def)
        show ?thesis
          unfolding res using tr tr4 ok ok4 out PageStatus True Props
          by (simp add: restore_events_def)
      qed
    qed
  qed
qed

lemma fetches_coob_events:
  "concat (map archive_fetch (coob_events w coobsDir name ver)) = [coobUrl name ver]"
  by (cases "http_archive w (coobUrl name ver)") (simp_all add: coob_events_def)

lemma pages_coob_events:
  "concat (map page_request (coob_events w coobsDir name ver)) = []"
  by (cases "http_archive w (coobUrl name ver)") (simp_all add: coob_events_def)

lemma fetches_of_references:
  "concat (map archive_fetch
     (concat (map (\<lambda>coob. coob_events w coobsDir (ref_id coob) (Some (ref_version coob))) coobs)))
   = map reference_url coobs"
  by (induction coobs) (simp_all add: fetches_coob_events reference_url_def)

lemma pages_of_references:
  "concat (map page_request
     (concat (map (\<lambda>coob. coob_events w coobsDir (ref_id coob) (Some (ref_version coob))) coobs)))
   = []"
proof (induction coobs)
  case Nil
  show ?case by simp
next
  case (Cons coob coobs)
  have "concat (map page_request
          (coob_events w coobsDir (ref_id coob) (Some (ref_version coob)) @
           concat (map (\<lambda>coob. coob_events w coobsDir (ref_id coob) (Some (ref_version coob))) coobs)))
        = concat (map page_request (coob_events w coobsDir (ref_id coob) (Some (ref_version coob)))) @
          concat (map page_request
            (concat (map (\<lambda>coob. coob_events w coobsDir (ref_id coob) (Some (ref_version coob))) coobs)))"
    by (simp only: map_append concat_append)
  then show ?case
    unfolding Cons.IH pages_coob_events by simp
qed

lemma pages_restore_events:
  "concat (map page_request (restore_events w opts)) = [svcUrl]"
  by (simp add: restore_events_def pages_coob_events pages_of_references
        del: concat_eq_Nil_conv split: page_response.splits props_result.splits)

lemma fetches_restore_events:
  assumes "http_page w svcUrl = PageStatus 200 body"
  shows "concat (map archive_fetch (restore_events w opts)) =
     coobUrl (opt_coobName opts) (used_version opts body) #
     (if fetch_ok w (coobUrl (opt_coobName opts) (used_version opts body))
      then (case devtool_CoobProps w (coobPropsFile (opt_coobsDir opts) (opt_coobName opts)) of
              PropsFailed err \<Rightarrow> []
            | Props references \<Rightarrow> map reference_url (up_to_first_failure w references))
      else [])"
  using assms
  by (simp add: restore_events_def fetches_coob_events fetches_of_references
        split: props_result.splits)

text \<open>
  Claim C4. The events of every run are those of \<open>restore_events\<close>: after the listing
  request, the whole fetch of the root package (download, unzip, removal of the archive)
  comes first, then the properties are read, then the references are fetched one call
  after the other in the order of the manifest, each call with all its events before the
  next begins, and the first fetch that does not succeed is the last one made. So the
  archive downloads of a run are the root followed by the references up to and including
  the first failure (none at all when the listing request itself fails), and with exactly
  one declared dependency and a root fetch that succeeds they are exactly two: the root,
  then the dependency.
\<close>

theorem restore_fetch_sequence:
  "trace (snd (restore w opts st)) = trace st @ restore_events w opts
   \<and> archive_fetches (snd (restore w opts st)) =
       archive_fetches st @
       (case http_page w svcUrl of
          PageError \<Rightarrow> []
        | PageStatus statusCode body \<Rightarrow>
            if statusCode \<noteq> 200 then []
            else
              coobUrl (opt_coobName opts) (used_version opts body) #
              (if fetch_ok w (coobUrl (opt_coobName opts) (used_version opts body))
               then (case devtool_CoobProps w
                            (coobPropsFile (opt_coobsDir opts) (opt_coobName opts)) of
                       PropsFailed err \<Rightarrow> []
                     | Props references \<Rightarrow> map reference_url (up_to_first_failure w references))
               else []))
   \<and> trace (snd (restore_references w coobsDir references st')) =
       trace st' @
       concat (map (\<lambda>coob. coob_events w coobsDir (ref_id coob) (Some (ref_version coob)))
                 (up_to_first_failure w references))
   \<and> prefix (up_to_first_failure w references) references
   \<and> (http_page w svcUrl = PageStatus 200 body
        \<and> fetch_ok w (coobUrl (opt_coobName opts) (used_version opts body))
        \<and> devtool_CoobProps w (coobPropsFile (opt_coobsDir opts) (opt_coobName opts)) = Props [dep]
      \<longrightarrow> archive_fetches (snd (restore w opts st)) =
            archive_fetches st @
            [coobUrl (opt_coobName opts) (used_version opts body), reference_url dep])"
proof -
  have b: "archive_fetches (snd (restore w opts st)) =
           archive_fetches st @ concat (map archive_fetch (restore_events w opts))"
    by (simp add: archive_fetches_def restore_trace)
  have c: "concat (map archive_fetch (restore_events w opts)) =
       (case http_page w svcUrl of
          PageError \<Rightarrow> []
        | PageStatus statusCode body \<Rightarrow>
            if statusCode \<noteq> 200 then []
            else
              coobUrl (opt_coobName opts) (used_version opts body) #
              (if fetch_ok w (coobUrl (opt_coobName opts) (used_version opts body))
               then (case devtool_CoobProps w
                            (coobPropsFile (opt_coobsDir opts) (opt_coobName opts)) of
                       PropsFailed err \<Rightarrow> []
                     | Props references \<Rightarrow> map reference_url (up_to_first_failure w references))
               else []))"
  proof (cases "http_page w svcUrl")
    case PageError
    then show ?thesis by (simp add: restore_events_def)
  next
    case (PageStatus statusCode body')
    show ?thesis
    proof (cases "statusCode = 200")
      case True
      with PageStatus have "http_page w svcUrl = PageStatus 200 body'" by simp
      from fetches_restore_events [OF this, of opts] show ?thesis
        using PageStatus True by simp
    next
      case False
      then show ?thesis using PageStatus by (simp add: restore_events_def)
    qed
  qed
  have p: "prefix (up_to_first_failure w references) references"
  proof -
    have "references = takeWhile (\<lambda>coob. fetch_ok w (reference_url coob)) references @
                       dropWhile (\<lambda>coob. fetch_ok w (reference_url coob)) references"
      by simp
    moreover have "prefix (take 1 (dropWhile (\<lambda>coob. fetch_ok w (reference_url coob)) references))
                     (dropWhile (\<lambda>coob. fetch_ok w (reference_url coob)) references)"
      by (rule take_is_prefix)
    ultimately show ?thesis
      unfolding up_to_first_failure_def by (metis same_prefix_prefix)
  qed
  have one: "up_to_first_failure w [dep] = [dep]"
    by (simp add: up_to_first_failure_def)
  show ?thesis
    using restore_trace [of w opts st] restore_references_trace [of w coobsDir references st'] p
    unfolding b c by (simp add: one)
qed

theorem restore_fetch_sequence_witness:
  "archive_fetches (snd (restore scenario_world scenario_opts empty_disk)) =
     [''http://coobs.sftconsult.synology.me:5000/Coral.Atoll.2.0.0.coob'',
      ''http://coobs.sftconsult.synology.me:5000/Coral.Common.1.4.2.coob'']"
proof -
  let ?body = "[''Coral.Atoll.2.0.0.coob'', ''Coral.Common.1.4.2.coob'']"
  let ?dep = "\<lparr>ref_id = ''Coral.Common'', ref_version = ''1.4.2''\<rparr>"
  have h: "http_page scenario_world svcUrl = PageStatus 200 ?body"
    by (simp add: scenario_world_def)
  have v: "used_version scenario_opts ?body = Some ''2.0.0''"
    by (simp add: used_version_def scenario_opts_def)
  have ok: "fetch_ok scenario_world (coobUrl (opt_coobName scenario_opts) (used_version scenario_opts ?body))"
    by (simp add: fetch_ok_def scenario_world_def)
  have props: "devtool_CoobProps scenario_world
                 (coobPropsFile (opt_coobsDir scenario_opts) (opt_coobName scenario_opts)) = Props [?dep]"
    by (simp add: scenario_world_def)
  have e: "archive_fetches empty_disk = []"
    by (simp add: archive_fetches_def empty_disk_def)
  from restore_fetch_sequence [of scenario_world scenario_opts empty_disk _ _ _ ?body ?dep] h ok props
  have "archive_fetches (snd (restore scenario_world scenario_opts empty_disk)) =
          archive_fetches empty_disk @
          [coobUrl (opt_coobName scenario_opts) (used_version scenario_opts ?body), reference_url ?dep]"
    by blast
  then show ?thesis
    unfolding e v by (simp add: coobUrl_def reference_url_def svcUrl_def js_string_def scenario_opts_def)
qed

lemmas run_eval =
  restore_def restoreCoob_def coobUrl_def svcUrl_def js_string_def emit_def ensureDirSync_def
  emptyDirSync_def createWriteStream_def unlinkSync_def Let_def archive_fetches_def
  page_requests_def

lemma status_500: "js_nat_string 500 = ''500''"
  by (simp add: js_nat_string.simps)

text \<open>
  Claim C1 (the run of restore.js at an explicit version). Every run requests the listing
  once, whatever the options: with the explicit version \<open>2.0.0\<close> the run
  uses that version for the root package, and still makes one listing request; when the
  listing request fails, the run fails without fetching any archive although the version
  was given.
\<close>

theorem restore_requests_listing:
  "page_requests (snd (restore w opts st)) = page_requests st @ [svcUrl]
   \<and> used_version scenario_opts body = Some ''2.0.0''
   \<and> page_requests (snd (restore scenario_world scenario_opts empty_disk))
       = [''http://coobs.sftconsult.synology.me:5000/'']
   \<and> fst (restore failing_listing_world scenario_opts empty_disk)
       = Rejected ''Invalid status code <500>''
   \<and> archive_fetches (snd (restore failing_listing_world scenario_opts empty_disk)) = []"
proof -
  have a: "page_requests (snd (restore w opts st)) = page_requests st @ [svcUrl]" for w opts st
    by (simp add: page_requests_def restore_trace pages_restore_events)
  have b: "used_version scenario_opts body = Some ''2.0.0''"
    by (simp add: used_version_def scenario_opts_def)
  have c: "page_requests (snd (restore scenario_world scenario_opts empty_disk))
       = [''http://coobs.sftconsult.synology.me:5000/'']"
    unfolding a by (simp add: page_requests_def empty_disk_def svcUrl_def)
  have d: "fst (restore failing_listing_world scenario_opts empty_disk)
             = Rejected ''Invalid status code <500>''"
    by (simp add: restore_def failing_listing_world_def Let_def status_500)
  have e: "archive_fetches (snd (restore failing_listing_world scenario_opts empty_disk)) = []"
    by (simp add: restore_def failing_listing_world_def Let_def archive_fetches_def emit_def
          empty_disk_def)
  show ?thesis using a b c d e by simp
qed

text \<open>
  Claim C3 (the run of restore.js on a listing without the package). The selection
  returns \<open>None\<close> (\<^verbatim>\<open>undefined\<close>), and the run goes on: it downloads the
  archive named \<open>foo.undefined.coob\<close>, and its promise is never rejected.
\<close>

theorem restore_without_any_version:
  "coobLatestVersion ''foo'' [] = None
   \<and> fst (restore empty_listing_world latest_opts empty_disk) = Pending
   \<and> archive_fetches (snd (restore empty_listing_world latest_opts empty_disk))
       = [''http://coobs.sftconsult.synology.me:5000/foo.undefined.coob'']"
proof -
  have a: "coobLatestVersion ''foo'' [] = None"
    by (simp add: coobLatestVersion_def js_sort_def)
  have b: "fst (restore empty_listing_world latest_opts empty_disk) = Pending"
    using a by (simp add: restore_def restoreCoob_def empty_listing_world_def latest_opts_def Let_def)
  have c: "archive_fetches (snd (restore empty_listing_world latest_opts empty_disk))
       = [''http://coobs.sftconsult.synology.me:5000/foo.undefined.coob'']"
    using a by (simp add: run_eval empty_listing_world_def latest_opts_def empty_disk_def)
  show ?thesis using a b c by simp
qed

lemma suffixed_paths:
  "coobDestFolder ''Coobs'' ''Coral.Common.1.4.2'' = ''Coobs/Coral.Common.1.4.2''"
  "coobDest ''Coobs'' ''Coral.Common.1.4.2'' (Some ''1.4.2'') = ''Coobs/Coral.Common.1.4.2.1.4.2.zip''"
  "path_join ''Coobs'' ''Coral.Common'' = ''Coobs/Coral.Common''"
  by code_simp+

text \<open>
  Claim C5, as stated, fails on \<open>restoreCoob\<close>: for the argument
  \<open>Coral.Common.1.4.2\<close> the pattern of the PowerShell module derives the name
  \<open>Coral.Common\<close>, and \<open>restoreCoob\<close> extracts into the folder
  \<open>Coobs/Coral.Common.1.4.2\<close>.
\<close>

theorem restoreCoob_folder_counterexample:
  "coobNameWithoutVersion ''Coral.Common.1.4.2'' = ''Coral.Common''
   \<and> coobDestFolder ''Coobs'' ''Coral.Common.1.4.2'' = ''Coobs/Coral.Common.1.4.2''
   \<and> coobDestFolder ''Coobs'' ''Coral.Common.1.4.2''
       \<noteq> path_join ''Coobs'' (coobNameWithoutVersion ''Coral.Common.1.4.2'')
   \<and> Unzip ''Coobs/Coral.Common.1.4.2.1.4.2.zip'' ''Coobs/Coral.Common.1.4.2''
       \<in> set (trace (snd (restoreCoob scenario_world ''Coobs'' ''Coral.Common.1.4.2''
                               (Some ''1.4.2'') empty_disk)))"
proof -
  have a: "coobNameWithoutVersion ''Coral.Common.1.4.2'' = ''Coral.Common''"
    by code_simp
  have c: "Unzip ''Coobs/Coral.Common.1.4.2.1.4.2.zip'' ''Coobs/Coral.Common.1.4.2''
       \<in> set (trace (snd (restoreCoob scenario_world ''Coobs'' ''Coral.Common.1.4.2''
                               (Some ''1.4.2'') empty_disk)))"
    by (simp add: restoreCoob_trace coob_events_def scenario_world_def suffixed_paths)
  show ?thesis
    unfolding a using c by (simp add: suffixed_paths)
qed

text \<open>
  Claim C5, amended. For every call of \<open>restoreCoob\<close> the extraction folder is the
  folder of packages joined with the name argument exactly as it is passed; the version
  is a separate argument, which appears in the URL and in the name of the archive file
  only. The folder is created, emptied and used as the target of the unzip tool, and it is
  the one folder the call adds: whatever is on disk after the call and was not there
  before is this folder, a folder that leads to it, the archive file, or an entry the
  unzip tool wrote into this folder.
\<close>

theorem restoreCoob_folder_is_argument:
  "coobDestFolder coobsDir name = path_join coobsDir name
   \<and> trace (snd (restoreCoob w coobsDir name ver st)) =
       trace st @
       [Log (''Downloading '' @ coobUrl name ver @ ''...''),
        EnsureDir (path_join coobsDir name),
        EmptyDir (path_join coobsDir name),
        Download (svcUrl @ name @ ''.'' @ js_string ver @ ''.coob'')
                 (path_join coobsDir (name @ ''.'' @ js_string ver @ ''.zip''))] @
       (case http_archive w (coobUrl name ver) of
          ArchiveError \<Rightarrow> []
        | ArchiveBody payload \<Rightarrow>
            Unzip (path_join coobsDir (name @ ''.'' @ js_string ver @ ''.zip''))
                  (path_join coobsDir name) #
            (if fst (devtool_unzip w payload)
             then [Unlink (path_join coobsDir (name @ ''.'' @ js_string ver @ ''.zip''))]
             else []))
   \<and> nodes (snd (restoreCoob w coobsDir name ver st))
       \<subseteq> nodes st
         \<union> folder_chain (node_of (path_join coobsDir name))
         \<union> {node_of (path_join coobsDir (name @ ''.'' @ js_string ver @ ''.zip''))}
         \<union> entry_nodes (path_join coobsDir name)
             (case http_archive w (coobUrl name ver) of
                ArchiveError \<Rightarrow> {}
              | ArchiveBody payload \<Rightarrow> snd (devtool_unzip w payload))
   \<and> folder_chain (node_of (path_join coobsDir name))
       \<subseteq> insert (node_of (path_join coobsDir (name @ ''.'' @ js_string ver @ ''.zip'')))
           (nodes (snd (restoreCoob w coobsDir name ver st)))"
proof -
  have t: "trace (snd (restoreCoob w coobsDir name ver st)) =
       trace st @
       [Log (''Downloading '' @ coobUrl name ver @ ''...''),
        EnsureDir (path_join coobsDir name),
        EmptyDir (path_join coobsDir name),
        Download (svcUrl @ name @ ''.'' @ js_string ver @ ''.coob'')
                 (path_join coobsDir (name @ ''.'' @ js_string ver @ ''.zip''))] @
       (case http_archive w (coobUrl name ver) of
          ArchiveError \<Rightarrow> []
        | ArchiveBody payload \<Rightarrow>
            Unzip (path_join coobsDir (name @ ''.'' @ js_string ver @ ''.zip''))
                  (path_join coobsDir name) #
            (if fst (devtool_unzip w payload)
             then [Unlink (path_join coobsDir (name @ ''.'' @ js_string ver @ ''.zip''))]
             else []))"
    by (simp add: restoreCoob_trace coob_events_def coobDestFolder_def coobDest_def
          coobUrl_def split: archive_response.splits)
  have n: "nodes (snd (restoreCoob w coobsDir name ver st))
       \<subseteq> nodes st
         \<union> folder_chain (node_of (path_join coobsDir name))
         \<union> {node_of (path_join coobsDir (name @ ''.'' @ js_string ver @ ''.zip''))}
         \<union> entry_nodes (path_join coobsDir name)
             (case http_archive w (coobUrl name ver) of
                ArchiveError \<Rightarrow> {}
              | ArchiveBody payload \<Rightarrow> snd (devtool_unzip w payload))"
    unfolding restoreCoob_nodes coobDestFolder_def coobDest_def
    by (auto split: archive_response.splits)
  have f: "folder_chain (node_of (path_join coobsDir name))
       \<subseteq> insert (node_of (path_join coobsDir (name @ ''.'' @ js_string ver @ ''.zip'')))
           (nodes (snd (restoreCoob w coobsDir name ver st)))"
    unfolding restoreCoob_nodes coobDestFolder_def coobDest_def
    by (auto split: archive_response.splits)
  show ?thesis
    using t n f by (simp add: coobDestFolder_def)
qed

lemma restoreCoob_sibling_kept:
  assumes other: "other \<noteq> name"
                 "rest \<noteq> [] \<or> other \<noteq> name @ ''.'' @ js_string ver @ ''.zip''"
      and folder: "node_of (coobDestFolder coobsDir name) = (root, base @ [name])"
      and archive: "node_of (coobDest coobsDir name ver) = (root, base @ [name @ ''.'' @ js_string ver @ ''.zip''])"
  shows "((root, base @ other # rest) \<in> nodes (snd (restoreCoob w coobsDir name ver st)))
         = ((root, base @ other # rest) \<in> nodes st)"
proof -
  let ?p = "(root, base @ other # rest)"
  have a: "\<not> below (root, base @ [name]) ?p"
    by (rule sibling_not_below) (use other in simp)
  have b: "?p \<notin> folder_chain (root, base @ [name])"
    by (rule sibling_not_in_chain) (use other in simp)
  have c: "?p \<notin> entry_nodes (coobDestFolder coobsDir name) entries" for entries
    by (rule sibling_not_entry [OF _ folder]) (use other in simp)
  have d: "?p \<noteq> (root, base @ [name @ ''.'' @ js_string ver @ ''.zip''])"
    using other by auto
  show ?thesis
    unfolding restoreCoob_nodes folder archive using a b c d
    by (auto split: archive_response.splits)
qed

lemma restoreCoob_contents:
  assumes folder: "node_of (coobDestFolder coobsDir name) = (root, base @ [name])"
      and archive: "node_of (coobDest coobsDir name ver) = (root, base @ [name @ ''.'' @ js_string ver @ ''.zip''])"
  shows "folder_contents (snd (restoreCoob w coobsDir name ver st)) (coobDestFolder coobsDir name) =
           (case http_archive w (coobUrl name ver) of
              ArchiveError \<Rightarrow> {}
            | ArchiveBody payload \<Rightarrow>
                entry_nodes (coobDestFolder coobsDir name) (snd (devtool_unzip w payload)))"
proof -
  let ?F = "node_of (coobDestFolder coobsDir name)"
  let ?Z = "node_of (coobDest coobsDir name ver)"
  have "\<not> below (root, base @ [name]) (root, base @ [name @ ''.'' @ js_string ver @ ''.zip''])"
    by (rule sibling_not_below) simp
  then have z: "\<not> below ?F ?Z" unfolding folder archive .
  have ch: "p \<in> folder_chain ?F \<Longrightarrow> \<not> below ?F p" for p
    by (rule folder_chain_not_below)
  have en: "p \<in> entry_nodes (coobDestFolder coobsDir name) entries \<Longrightarrow> below ?F p" for p entries
    by (rule entry_nodes_below)
  have ez: "?Z \<notin> entry_nodes (coobDestFolder coobsDir name) entries" for entries
    using en z by blast
  show ?thesis
  proof (cases "http_archive w (coobUrl name ver)")
    case ArchiveError
    then show ?thesis
      unfolding folder_contents_def restoreCoob_nodes
      using contents_after_call(1) [of ?F ?Z "folder_chain ?F" "{}" "nodes st", OF z ch]
      by simp
  next
    case (ArchiveBody payload)
    let ?E = "entry_nodes (coobDestFolder coobsDir name) (snd (devtool_unzip w payload))"
    have "{p \<in> (insert ?Z ({p \<in> nodes st. \<not> below ?F p} \<union> folder_chain ?F) \<union> ?E)
                 - (if fst (devtool_unzip w payload) then {?Z} else {}). below ?F p}
          = ?E - (if fst (devtool_unzip w payload) then {?Z} else {})"
      by (rule contents_after_call(2) [OF z ch en])
    moreover have "?E - (if fst (devtool_unzip w payload) then {?Z} else {}) = ?E"
      using ez by auto
    ultimately show ?thesis
      unfolding folder_contents_def restoreCoob_nodes using ArchiveBody by simp
  qed
qed

lemma emptyDirSync_empties: "folder_contents (emptyDirSync folder st) folder = {}"
  using folder_chain_not_below [of _ "node_of folder"]
  by (auto simp: folder_contents_def)

lemma scenario_paths:
  "coobDestFolder ''Coobs'' ''Coral.Common'' = ''Coobs/Coral.Common''"
  "coobDestFolder ''Coobs'' ''Coral.Atoll'' = ''Coobs/Coral.Atoll''"
  "coobDestFolder ''Coobs'' ''.'' = ''Coobs''"
  "coobDest ''Coobs'' ''Coral.Common'' (Some ''/../Coral.Atoll/v'') = ''Coobs/Coral.Atoll/v.zip''"
  "coobDest ''Coobs'' ''Coral.Common'' (Some ''1.4.2'') = ''Coobs/Coral.Common.1.4.2.zip''"
  "coobDest ''Coobs'' ''.'' (Some ''1.0'') = ''Coobs/..1.0.zip''"
  "node_of ''Coobs'' = (False, [''Coobs''])"
  "node_of ''Coobs/Coral.Common'' = (False, [''Coobs'', ''Coral.Common''])"
  "node_of ''Coobs/Coral.Atoll'' = (False, [''Coobs'', ''Coral.Atoll''])"
  "node_of ''Coobs/Coral.Atoll/v.zip'' = (False, [''Coobs'', ''Coral.Atoll'', ''v.zip''])"
  "node_of ''Coobs/Coral.Common.1.4.2.zip'' = (False, [''Coobs'', ''Coral.Common.1.4.2.zip''])"
  "node_of ''Coobs/..1.0.zip'' = (False, [''Coobs'', ''..1.0.zip''])"
  by code_simp+

text \<open>
  Claim C9, as stated, fails in three ways. When the unzip tool fails after it has written
  an entry, the call does not succeed and the folder of the package is not empty. When the
  package id is the dot, the destination folder is the folder of packages itself, and
  emptying it removes the folders of all other packages. When the version has separators,
  the archive file can lie in the folder of another package.
\<close>

theorem restoreCoob_partial_unzip_counterexample:
  "fst (restoreCoob partial_unzip_world ''Coobs'' ''Coral.Common'' (Some ''1.4.2'') earlier_disk)
     = Pending
   \<and> (False, [''Coobs'', ''Coral.Common'', ''coob.props''])
       \<in> folder_contents (snd (restoreCoob partial_unzip_world ''Coobs'' ''Coral.Common''
                                  (Some ''1.4.2'') earlier_disk)) ''Coobs/Coral.Common''
   \<and> folder_contents (snd (restoreCoob partial_unzip_world ''Coobs'' ''Coral.Common''
                              (Some ''1.4.2'') earlier_disk)) ''Coobs/Coral.Common'' \<noteq> {}
   \<and> coobDestFolder ''Coobs'' ''.'' = ''Coobs''
   \<and> (False, [''Coobs'', ''Coral.Atoll'', ''coob.props''])
       \<in> folder_contents earlier_disk ''Coobs/Coral.Atoll''
   \<and> (False, [''Coobs'', ''Coral.Atoll'', ''coob.props''])
       \<notin> folder_contents (snd (restoreCoob scenario_world ''Coobs'' ''.'' (Some ''1.0'')
                                  earlier_disk)) ''Coobs/Coral.Atoll''
   \<and> (False, [''Coobs'', ''Coral.Atoll''])
       \<notin> nodes (snd (restoreCoob scenario_world ''Coobs'' ''.'' (Some ''1.0'') earlier_disk))
   \<and> coobDest ''Coobs'' ''Coral.Common'' (Some ''/../Coral.Atoll/v'') = ''Coobs/Coral.Atoll/v.zip''
   \<and> (False, [''Coobs'', ''Coral.Atoll'', ''v.zip''])
       \<in> folder_contents (snd (restoreCoob partial_unzip_world ''Coobs'' ''Coral.Common''
                                  (Some ''/../Coral.Atoll/v'') earlier_disk)) ''Coobs/Coral.Atoll''
   \<and> (False, [''Coobs'', ''Coral.Atoll'', ''v.zip''])
       \<notin> folder_contents earlier_disk ''Coobs/Coral.Atoll''"
proof -
  have a: "fst (restoreCoob partial_unzip_world ''Coobs'' ''Coral.Common'' (Some ''1.4.2'') earlier_disk)
             = Pending"
    by (simp add: restoreCoob_outcome partial_unzip_world_def)
  have b: "(False, [''Coobs'', ''Coral.Common'', ''coob.props''])
       \<in> folder_contents (snd (restoreCoob partial_unzip_world ''Coobs'' ''Coral.Common''
                                  (Some ''1.4.2'') earlier_disk)) ''Coobs/Coral.Common''"
    by (simp add: folder_contents_def restoreCoob_nodes scenario_paths partial_unzip_world_def
          entry_nodes_simps path_segment_def below_def)
  have c: "(False, [''Coobs'', ''Coral.Atoll'', ''coob.props''])
       \<in> folder_contents earlier_disk ''Coobs/Coral.Atoll''"
    by (simp add: folder_contents_def earlier_disk_def scenario_paths below_def)
  have d: "(False, [''Coobs'', ''Coral.Atoll'', ''coob.props''])
       \<notin> folder_contents (snd (restoreCoob scenario_world ''Coobs'' ''.'' (Some ''1.0'')
                                  earlier_disk)) ''Coobs/Coral.Atoll''"
    by (simp add: folder_contents_def restoreCoob_nodes scenario_paths scenario_world_def
          entry_nodes_simps path_segment_def below_def folder_chain_def earlier_disk_def)
  have e: "(False, [''Coobs'', ''Coral.Atoll''])
       \<notin> nodes (snd (restoreCoob scenario_world ''Coobs'' ''.'' (Some ''1.0'') earlier_disk))"
    by (simp add: restoreCoob_nodes scenario_paths scenario_world_def
          entry_nodes_simps path_segment_def below_def folder_chain_def earlier_disk_def)
  have f: "(False, [''Coobs'', ''Coral.Atoll'', ''v.zip''])
       \<in> folder_contents (snd (restoreCoob partial_unzip_world ''Coobs'' ''Coral.Common''
                                  (Some ''/../Coral.Atoll/v'') earlier_disk)) ''Coobs/Coral.Atoll''"
    by (simp add: folder_contents_def restoreCoob_nodes scenario_paths partial_unzip_world_def
          below_def)
  have g: "(False, [''Coobs'', ''Coral.Atoll'', ''v.zip''])
       \<notin> folder_contents earlier_disk ''Coobs/Coral.Atoll''"
    by (simp add: folder_contents_def earlier_disk_def)
  show ?thesis
    using a b c d e f g scenario_paths(3,4) by blast
qed

text \<open>
  Claim C9, amended. In every call of \<open>restoreCoob\<close> the destination folder is created
  and emptied, with everything below it, before the download starts. When the package id
  and the name of the archive file are single path segments and the call ends, whatever
  its outcome, the folder holds nothing of what it held before: it is empty when the
  download failed, and otherwise it holds exactly the entries the unzip tool wrote, also
  when the tool failed. The folder of every package with another id that is a single path
  segment, and is not the name of the archive file, is as it was: it is present exactly
  when it was, and it holds what it held.
\<close>

theorem restoreCoob_folder_contents:
  "(\<exists>later. trace (snd (restoreCoob w coobsDir name ver st)) =
      trace st @
      [Log (''Downloading '' @ coobUrl name ver @ ''...''),
       EnsureDir (coobDestFolder coobsDir name),
       EmptyDir (coobDestFolder coobsDir name),
       Download (coobUrl name ver) (coobDest coobsDir name ver)] @ later)
   \<and> folder_contents (emptyDirSync (coobDestFolder coobsDir name) st)
       (coobDestFolder coobsDir name) = {}
   \<and> (path_segment name \<and> path_segment (name @ ''.'' @ js_string ver @ ''.zip'') \<longrightarrow>
        folder_contents (snd (restoreCoob w coobsDir name ver st)) (coobDestFolder coobsDir name) =
          (case http_archive w (coobUrl name ver) of
             ArchiveError \<Rightarrow> {}
           | ArchiveBody payload \<Rightarrow>
               entry_nodes (coobDestFolder coobsDir name) (snd (devtool_unzip w payload)))
        \<and> (\<forall>other. path_segment other \<and> other \<noteq> name
                    \<and> other \<noteq> name @ ''.'' @ js_string ver @ ''.zip'' \<longrightarrow>
               (node_of (coobDestFolder coobsDir other)
                    \<in> nodes (snd (restoreCoob w coobsDir name ver st))
                  \<longleftrightarrow> node_of (coobDestFolder coobsDir other) \<in> nodes st)
               \<and> folder_contents (snd (restoreCoob w coobsDir name ver st))
                     (coobDestFolder coobsDir other)
                   = folder_contents st (coobDestFolder coobsDir other)))"
proof -
  have t: "\<exists>later. trace (snd (restoreCoob w coobsDir name ver st)) =
            trace st @
            [Log (''Downloading '' @ coobUrl name ver @ ''...''),
             EnsureDir (coobDestFolder coobsDir name),
             EmptyDir (coobDestFolder coobsDir name),
             Download (coobUrl name ver) (coobDest coobsDir name ver)] @ later"
    by (simp add: restoreCoob_trace coob_events_def)
  have rest: "folder_contents (snd (restoreCoob w coobsDir name ver st)) (coobDestFolder coobsDir name) =
          (case http_archive w (coobUrl name ver) of
             ArchiveError \<Rightarrow> {}
           | ArchiveBody payload \<Rightarrow>
               entry_nodes (coobDestFolder coobsDir name) (snd (devtool_unzip w payload)))
        \<and> (\<forall>other. path_segment other \<and> other \<noteq> name
                    \<and> other \<noteq> name @ ''.'' @ js_string ver @ ''.zip'' \<longrightarrow>
               (node_of (coobDestFolder coobsDir other)
                    \<in> nodes (snd (restoreCoob w coobsDir name ver st))
                  \<longleftrightarrow> node_of (coobDestFolder coobsDir other) \<in> nodes st)
               \<and> folder_contents (snd (restoreCoob w coobsDir name ver st))
                     (coobDestFolder coobsDir other)
                   = folder_contents st (coobDestFolder coobsDir other))"
    if seg: "path_segment name" "path_segment (name @ ''.'' @ js_string ver @ ''.zip'')"
  proof -
    let ?root = "coobsDir \<noteq> [] \<and> hd coobsDir = CHR ''/''"
    let ?base = "normalizeString (\<not> ?root) [] (js_split CHR ''/'' coobsDir)"
    let ?zip = "name @ ''.'' @ js_string ver @ ''.zip''"
    let ?after = "snd (restoreCoob w coobsDir name ver st)"
    have folder: "node_of (coobDestFolder coobsDir name) = (?root, ?base @ [name])"
      unfolding coobDestFolder_def by (rule path_join_segment [OF seg(1)])
    have archive: "node_of (coobDest coobsDir name ver) = (?root, ?base @ [?zip])"
      unfolding coobDest_def by (rule path_join_segment [OF seg(2)])
    have c: "folder_contents ?after (coobDestFolder coobsDir name) =
             (case http_archive w (coobUrl name ver) of
                ArchiveError \<Rightarrow> {}
              | ArchiveBody payload \<Rightarrow>
                  entry_nodes (coobDestFolder coobsDir name) (snd (devtool_unzip w payload)))"
      by (rule restoreCoob_contents [OF folder archive])
    have fr: "(node_of (coobDestFolder coobsDir other) \<in> nodes ?after
                   \<longleftrightarrow> node_of (coobDestFolder coobsDir other) \<in> nodes st)
              \<and> folder_contents ?after (coobDestFolder coobsDir other)
                    = folder_contents st (coobDestFolder coobsDir other)"
      if o: "path_segment other" "other \<noteq> name" "other \<noteq> ?zip" for other
    proof -
      have g: "node_of (coobDestFolder coobsDir other) = (?root, ?base @ [other])"
        unfolding coobDestFolder_def by (rule path_join_segment [OF o(1)])
      have kept: "((?root, ?base @ other # rest) \<in> nodes ?after)
                    = ((?root, ?base @ other # rest) \<in> nodes st)" for rest
        by (rule restoreCoob_sibling_kept [OF o(2) _ folder archive]) (use o(3) in simp)
      have at: "(node_of (coobDestFolder coobsDir other) \<in> nodes ?after)
                   = (node_of (coobDestFolder coobsDir other) \<in> nodes st)"
        unfolding g using kept [of "[]"] by simp
      have inside: "(p \<in> nodes ?after) = (p \<in> nodes st)" if "below (?root, ?base @ [other]) p" for p
      proof -
        from that obtain rest where "snd p = (?base @ [other]) @ rest" and "fst p = ?root"
          by (auto simp: below_def strict_prefix_def prefix_def)
        then have "p = (?root, ?base @ other # rest)"
          by (cases p) simp
        then show ?thesis using kept [of rest] by simp
      qed
      have "folder_contents ?after (coobDestFolder coobsDir other)
              = folder_contents st (coobDestFolder coobsDir other)"
        unfolding folder_contents_def g using inside by blast
      then show ?thesis using at by simp
    qed
    show ?thesis
      using c fr by blast
  qed
  show ?thesis
    using t rest emptyDirSync_empties by blast
qed

theorem restoreCoob_folder_contents_witness:
  "path_segment ''Coral.Common'' \<and> path_segment ''Coral.Common.1.4.2.zip''
   \<and> path_segment ''Coral.Atoll''
   \<and> (False, [''Coobs'', ''Coral.Atoll''])
       \<in> nodes (snd (restoreCoob partial_unzip_world ''Coobs'' ''Coral.Common'' (Some ''1.4.2'')
                       earlier_disk))
   \<and> folder_contents (snd (restoreCoob partial_unzip_world ''Coobs'' ''Coral.Common''
                              (Some ''1.4.2'') earlier_disk)) ''Coobs/Coral.Atoll''
       = {(False, [''Coobs'', ''Coral.Atoll'', ''coob.props''])}
   \<and> folder_contents (snd (restoreCoob failing_listing_world ''Coobs'' ''Coral.Common''
                              (Some ''1.4.2'') earlier_disk)) ''Coobs/Coral.Common'' = {}
   \<and> folder_contents (snd (restoreCoob partial_unzip_world ''Coobs'' ''Coral.Common''
                              (Some ''1.4.2'') earlier_disk)) ''Coobs/Coral.Common''
       = {(False, [''Coobs'', ''Coral.Common'', ''coob.props''])}"
proof -
  have n: "path_segment ''Coral.Common''" by (simp add: path_segment_def)
  have z: "path_segment (''Coral.Common'' @ ''.'' @ js_string (Some ''1.4.2'') @ ''.zip'')"
    by (simp add: path_segment_def js_string_def)
  have z': "path_segment ''Coral.Common.1.4.2.zip''" by (simp add: path_segment_def)
  have o: "path_segment ''Coral.Atoll'' \<and> ''Coral.Atoll'' \<noteq> ''Coral.Common''
           \<and> ''Coral.Atoll'' \<noteq> ''Coral.Common'' @ ''.'' @ js_string (Some ''1.4.2'') @ ''.zip''"
    by (simp add: path_segment_def js_string_def)
  have before: "folder_contents earlier_disk ''Coobs/Coral.Atoll''
                  = {(False, [''Coobs'', ''Coral.Atoll'', ''coob.props''])}"
    by (auto simp: folder_contents_def earlier_disk_def scenario_paths below_def)
  have there: "(False, [''Coobs'', ''Coral.Atoll'']) \<in> nodes earlier_disk"
    by (simp add: earlier_disk_def)
  have partial:
    "folder_contents (snd (restoreCoob partial_unzip_world ''Coobs'' ''Coral.Common''
                             (Some ''1.4.2'') earlier_disk)) (coobDestFolder ''Coobs'' ''Coral.Common'') =
          (case http_archive partial_unzip_world (coobUrl ''Coral.Common'' (Some ''1.4.2'')) of
             ArchiveError \<Rightarrow> {}
           | ArchiveBody payload \<Rightarrow>
               entry_nodes (coobDestFolder ''Coobs'' ''Coral.Common'')
                 (snd (devtool_unzip partial_unzip_world payload)))
        \<and> (\<forall>other. path_segment other \<and> other \<noteq> ''Coral.Common''
                    \<and> other \<noteq> ''Coral.Common'' @ ''.'' @ js_string (Some ''1.4.2'') @ ''.zip'' \<longrightarrow>
               (node_of (coobDestFolder ''Coobs'' other)
                    \<in> nodes (snd (restoreCoob partial_unzip_world ''Coobs'' ''Coral.Common''
                                    (Some ''1.4.2'') earlier_disk))
                  \<longleftrightarrow> node_of (coobDestFolder ''Coobs'' other) \<in> nodes earlier_disk)
               \<and> folder_contents (snd (restoreCoob partial_unzip_world ''Coobs'' ''Coral.Common''
                                         (Some ''1.4.2'') earlier_disk))
                     (coobDestFolder ''Coobs'' other)
                   = folder_contents earlier_disk (coobDestFolder ''Coobs'' other))"
    using restoreCoob_folder_contents
            [of partial_unzip_world "''Coobs''" "''Coral.Common''" "Some ''1.4.2''" earlier_disk] n z
    by blast
  have failing:
    "folder_contents (snd (restoreCoob failing_listing_world ''Coobs'' ''Coral.Common''
                             (Some ''1.4.2'') earlier_disk)) (coobDestFolder ''Coobs'' ''Coral.Common'') =
          (case http_archive failing_listing_world (coobUrl ''Coral.Common'' (Some ''1.4.2'')) of
             ArchiveError \<Rightarrow> {}
           | ArchiveBody payload \<Rightarrow>
               entry_nodes (coobDestFolder ''Coobs'' ''Coral.Common'')
                 (snd (devtool_unzip failing_listing_world payload)))"
    using restoreCoob_folder_contents
            [of failing_listing_world "''Coobs''" "''Coral.Common''" "Some ''1.4.2''" earlier_disk] n z
    by blast
  from partial o
  have a: "(node_of (coobDestFolder ''Coobs'' ''Coral.Atoll'')
              \<in> nodes (snd (restoreCoob partial_unzip_world ''Coobs'' ''Coral.Common''
                              (Some ''1.4.2'') earlier_disk))
            \<longleftrightarrow> node_of (coobDestFolder ''Coobs'' ''Coral.Atoll'') \<in> nodes earlier_disk)
           \<and> folder_contents (snd (restoreCoob partial_unzip_world ''Coobs'' ''Coral.Common''
                                      (Some ''1.4.2'') earlier_disk))
                (coobDestFolder ''Coobs'' ''Coral.Atoll'')
               = folder_contents earlier_disk (coobDestFolder ''Coobs'' ''Coral.Atoll'')"
    by blast
  from failing
  have b: "folder_contents (snd (restoreCoob failing_listing_world ''Coobs'' ''Coral.Common''
                              (Some ''1.4.2'') earlier_disk)) (coobDestFolder ''Coobs'' ''Coral.Common'')
             = {}"
    by (simp add: failing_listing_world_def)
  from partial
  have c: "folder_contents (snd (restoreCoob partial_unzip_world ''Coobs'' ''Coral.Common''
                              (Some ''1.4.2'') earlier_disk)) (coobDestFolder ''Coobs'' ''Coral.Common'')
             = entry_nodes (coobDestFolder ''Coobs'' ''Coral.Common'') {''coob.props''}"
    by (simp add: partial_unzip_world_def)
  show ?thesis
    using n z' o a b c before there
    by (simp add: scenario_paths entry_nodes_simps path_segment_def)
qed

text \<open>
  Claim C8 (the exit code of the restore command). With a package name, the action of the
  command calls \<open>exit(0)\<close> whatever the run does: the promise of
  \<open>RestoreCoobsCommand\<close> is fulfilled before the run has settled. When the listing
  request is answered with the status code 500, the run is rejected and the exit code the
  action sets is 0.
\<close>

theorem restore_action_exit_code:
  "fst (restore_action w coobsDir (Some (c # cs)) coobVersion0 overwrite st) = Some 0
   \<and> map_option fst (snd (restore_action failing_listing_world ''Coobs'' (Some ''Coral.Atoll'')
                            (Some ''2.0.0'') True empty_disk))
       = Some (Rejected ''Invalid status code <500>'')
   \<and> fst (restore_action failing_listing_world ''Coobs'' (Some ''Coral.Atoll'')
            (Some ''2.0.0'') True empty_disk) = Some 0"
proof -
  have a: "fst (restore_action w coobsDir (Some (c # cs)) coobVersion0 overwrite st) = Some 0"
    for w coobsDir c cs coobVersion0 overwrite st
    by (simp add: restore_action_def RestoreCoobsCommand_def promise_state_def outer_catch_def
          exit_code_def Let_def)
  have b: "map_option fst (snd (restore_action failing_listing_world ''Coobs'' (Some ''Coral.Atoll'')
                            (Some ''2.0.0'') True empty_disk))
       = Some (Rejected ''Invalid status code <500>'')"
    by (simp add: restore_action_def RestoreCoobsCommand_def promise_state_def outer_catch_def
          Let_def restore_def failing_listing_world_def status_500)
  show ?thesis using a b by simp
qed

end
